theory Spec2Isabelle
  imports Complex_Main
begin

section \<open>Errors, tensors and the host library's services\<close>

text \<open>
  Every \<^verbatim>\<open>TORCH_CHECK\<close> of the sources is a branch returning an error value.
  The names follow the taxonomy of the specification (section 7).  Undefined
  behaviour of the C++ code (an integer division by zero, a read or write outside
  a buffer) is made explicit as an error of its own, so that no theorem can hide it.
\<close>

datatype error =
    InvalidArgument
  | InvalidLayout
  | ShapeMismatch
  | UnsupportedScalarType
  | IndexError
  | DivisionByZero
  | OutOfBounds
  | IntegerOverflow
  | UnexpectedState

text \<open>The values of \<^verbatim>\<open>at::MemoryFormat\<close> and (a part of) \<^verbatim>\<open>at::ScalarType\<close>.\<close>

datatype MemoryFormat = Contiguous | Preserve | ChannelsLast | ChannelsLast3d

datatype ScalarType =
  kByte | kChar | kShort | kInt | kLong | kHalf | kFloat | kDouble | kBool | kBFloat16

text \<open>
  A dense tensor: its logical sizes (for four dimensions always in the order
  N, C, H, W), the memory format that \<^verbatim>\<open>suggest_memory_format()\<close> reports, its
  element kind, and the elements in the physical order of that memory format.
\<close>

record 'a tensor =
  sizes :: "nat list"
  memory_format :: MemoryFormat
  scalar_type :: ScalarType
  data :: "'a list"

definition numel :: "'a tensor \<Rightarrow> nat" where
  "numel t = prod_list (sizes t)"

definition ndimension :: "'a tensor \<Rightarrow> nat" where
  "ndimension t = length (sizes t)"

text \<open>\<^verbatim>\<open>t.size(d)\<close>, where a negative \<open>d\<close> counts from the end.  The callers check the rank.\<close>

definition size_at :: "'a tensor \<Rightarrow> int \<Rightarrow> nat" where
  "size_at t d = sizes t ! nat (if d < 0 then d + int (length (sizes t)) else d)"

text \<open>
  The tag of a tensor is the answer of \<^verbatim>\<open>suggest_memory_format()\<close>.  The host library
  computes that answer from the sizes and the strides; \<open>wf_tensor\<close> below says
  which answers it can give for which sizes.
\<close>

definition suggest_memory_format :: "'a tensor \<Rightarrow> MemoryFormat" where
  "suggest_memory_format t = memory_format t"

text \<open>
  \<^verbatim>\<open>at::empty({0}, options)\<close> followed by \<^verbatim>\<open>resize_(sizes, memory_format)\<close>: a buffer
  of the right length whose content is whatever the memory held before, given
  here by the arbitrary function \<open>junk\<close>.
\<close>

definition empty_resized :: "(nat \<Rightarrow> 'a) \<Rightarrow> ScalarType \<Rightarrow> nat list \<Rightarrow> MemoryFormat \<Rightarrow> 'a tensor" where
  "empty_resized junk st sz fmt =
     \<lparr>sizes = sz, memory_format = fmt, scalar_type = st, data = map junk [0..<prod_list sz]\<rparr>"

text \<open>
  A tensor is well formed when its buffer holds one element per coordinate and
  its tag is one the host library can report for its sizes: it reports
  channels-last only for four dimensions, none of them empty, and not when
  channels, height and width are all one (the strides are then ambiguous and the
  packed layout is reported); channels-last-3d likewise for five dimensions; the
  packed layout otherwise, so for every tensor with an empty dimension.
\<close>

definition wf_tensor :: "'a tensor \<Rightarrow> bool" where
  "wf_tensor t =
     (length (data t) = prod_list (sizes t) \<and>
      (case memory_format t of
         Contiguous \<Rightarrow> True
       | ChannelsLast \<Rightarrow>
           length (sizes t) = 4 \<and> prod_list (sizes t) \<noteq> 0 \<and> tl (sizes t) \<noteq> [1, 1, 1]
       | ChannelsLast3d \<Rightarrow>
           length (sizes t) = 5 \<and> prod_list (sizes t) \<noteq> 0 \<and> tl (sizes t) \<noteq> [1, 1, 1, 1]
       | Preserve \<Rightarrow> False))"

subsection \<open>Index enumerator\<close>

text \<open>
  Modelled from the spec: \<^verbatim>\<open>at::native::data_index_init\<close> and
  \<^verbatim>\<open>at::native::data_index_step\<close> belong to the host library and are not among the
  sources.  Section 4.1 of the specification: given a flat offset and the extents,
  listed from the slowest to the fastest varying, \<open>data_index_init\<close> produces the
  coordinates of that offset (and returns what is left of the offset);
  \<open>data_index_step\<close> advances them like an odometer, the fastest digit first, a
  digit that reaches its extent resetting to zero and carrying into the next
  slower one.  The callers pass extents that are at least 1.
\<close>

fun data_index_init :: "nat \<Rightarrow> nat list \<Rightarrow> nat \<times> nat list" where
  "data_index_init offset [] = (offset, [])"
| "data_index_init offset (X # Xs) =
     (let (offset', xs) = data_index_init offset Xs
      in (offset' div X, (offset' mod X) # xs))"

fun data_index_step :: "nat list \<Rightarrow> nat list \<Rightarrow> bool \<times> nat list" where
  "data_index_step (x # xs) (X # Xs) =
     (let (carry, xs') = data_index_step xs Xs
      in if carry
         then (let x' = (if x + 1 = X then 0 else x + 1) in (x' = 0, x' # xs'))
         else (False, x # xs'))"
| "data_index_step xs Xs = (True, [])"

subsection \<open>Memory formats\<close>

text \<open>
  Modelled from the spec: the layouts of the host library's tensor (section 3: the
  shape and the layout tag together determine the linear offset of a logical
  coordinate).  \<open>physical_offset\<close> is that offset: channels-last stores a tensor of
  sizes N, C, H, W in the order N, H, W, C; the packed layout is row-major in the
  order of the sizes.  \<open>logical_index\<close> is the way back, from the place in the
  buffer to the coordinate.  \<^verbatim>\<open>contiguous(memory_format)\<close> returns the tensor itself
  when it already has the format asked for, and otherwise a copy with the same
  logical content in that format; \<^verbatim>\<open>copy_\<close> stores the logical content of the
  source in the layout of the destination.
\<close>

definition row_major :: "nat list \<Rightarrow> nat list \<Rightarrow> nat" where
  "row_major sz idx = foldl (\<lambda>acc (x, X). acc * X + x) 0 (zip idx sz)"

definition physical_offset :: "MemoryFormat \<Rightarrow> nat list \<Rightarrow> nat list \<Rightarrow> nat" where
  "physical_offset fmt sz idx =
     (case (fmt, sz, idx) of
        (ChannelsLast, [N, C, H, W], [n, c, h, w]) \<Rightarrow> ((n * H + h) * W + w) * C + c
      | _ \<Rightarrow> row_major sz idx)"

definition logical_index :: "MemoryFormat \<Rightarrow> nat list \<Rightarrow> nat \<Rightarrow> nat list" where
  "logical_index fmt sz k =
     (case (fmt, sz) of
        (ChannelsLast, [N, C, H, W]) \<Rightarrow>
          (case snd (data_index_init k [N, H, W, C]) of
             [n, h, w, c] \<Rightarrow> [n, c, h, w]
           | _ \<Rightarrow> [])
      | _ \<Rightarrow> snd (data_index_init k sz))"

definition contiguous :: "'a tensor \<Rightarrow> MemoryFormat \<Rightarrow> 'a tensor" where
  "contiguous t fmt =
     (if memory_format t = fmt then t
      else t\<lparr>memory_format := fmt,
             data := map (\<lambda>k. data t ! physical_offset (memory_format t) (sizes t)
                                         (logical_index fmt (sizes t) k))
                       [0..<prod_list (sizes t)]\<rparr>)"

definition copy_into :: "'a tensor \<Rightarrow> 'a tensor \<Rightarrow> 'a tensor" where
  "copy_into dst src = dst\<lparr>data := data (contiguous src (memory_format dst))\<rparr>"

text \<open>
  Modelled from the spec: the element of a tensor at a logical coordinate
  (\<^verbatim>\<open>t[n][c][h][w]\<close>), read from the buffer at the offset of its layout.
\<close>

definition element_at :: "'a tensor \<Rightarrow> nat list \<Rightarrow> 'a" where
  "element_at t idx = data t ! physical_offset (memory_format t) (sizes t) idx"

text \<open>
  Modelled from the spec: \<^verbatim>\<open>at::parallel_for(begin, end, grain, body)\<close> of the host
  library (section 6): \<open>body\<close> receives contiguous sub-ranges of \<open>[begin, end)\<close>.
  The chunks of every kernel write disjoint elements, so the model runs the
  whole range as one chunk, and does not call \<open>body\<close> on an empty range.
\<close>

definition parallel_for :: "nat \<Rightarrow> nat \<Rightarrow> (nat \<Rightarrow> nat \<Rightarrow> 's \<Rightarrow> error + 's) \<Rightarrow> 's \<Rightarrow> error + 's" where
  "parallel_for begin end body s = (if begin < end then body begin end s else Inr s)"

text \<open>
  Modelled from the spec: the dispatch macros \<^verbatim>\<open>AT_DISPATCH_FLOATING_TYPES\<close> and
  \<^verbatim>\<open>AT_DISPATCH_FLOATING_TYPES_AND2\<close> of the host library select the kernel
  instance for the element kind; the first knows the 32-bit and 64-bit floats, the
  second the two extra kinds it is given as well.  Any other kind is an error.
\<close>

definition AT_DISPATCH_FLOATING_TYPES :: "ScalarType \<Rightarrow> bool" where
  "AT_DISPATCH_FLOATING_TYPES st = (st = kFloat \<or> st = kDouble)"

definition AT_DISPATCH_FLOATING_TYPES_AND2 :: "ScalarType \<Rightarrow> ScalarType \<Rightarrow> ScalarType \<Rightarrow> bool" where
  "AT_DISPATCH_FLOATING_TYPES_AND2 t1 t2 st = (st = t1 \<or> st = t2 \<or> st = kFloat \<or> st = kDouble)"

section \<open>Pixel shuffle\<close>

text \<open>
  The loop every kernel runs inside \<open>parallel_for\<close>:
  \<^verbatim>\<open>for (i = begin; i < end; i++) { body(i, idx); data_index_step(idx, exts); }\<close>
  where \<open>body\<close> may fail.
\<close>

function index_loop ::
  "(nat \<Rightarrow> nat list \<Rightarrow> 's \<Rightarrow> error + 's) \<Rightarrow> nat list \<Rightarrow> nat \<Rightarrow> nat \<Rightarrow> nat list \<Rightarrow> 's \<Rightarrow> error + 's" where
  "index_loop body exts i end idx s =
     (if i < end
      then case body i idx s of
             Inl e \<Rightarrow> Inl e
           | Inr s' \<Rightarrow> index_loop body exts (Suc i) end (snd (data_index_step idx exts)) s'
      else Inr s)"
  by pat_completeness auto
termination
  by (relation "measure (\<lambda>(body, exts, i, end, idx, s). end - i)") auto

declare index_loop.simps [simp del]

text \<open>
  A loop over a range whose body may fail, and the body of the pixel shuffle
  kernels: \<^verbatim>\<open>dst[i] = src[offset]\<close>.
\<close>

fun for_each :: "'i list \<Rightarrow> ('i \<Rightarrow> 's \<Rightarrow> error + 's) \<Rightarrow> 's \<Rightarrow> error + 's" where
  "for_each [] body s = Inr s"
| "for_each (i # rest) body s =
     (case body i s of Inl e \<Rightarrow> Inl e | Inr s' \<Rightarrow> for_each rest body s')"

definition copy_element :: "'a list \<Rightarrow> nat \<Rightarrow> nat \<Rightarrow> 'a list \<Rightarrow> error + 'a list" where
  "copy_element src offset i dst =
     (if offset < length src \<and> i < length dst then Inr (dst[i := src ! offset])
      else Inl OutOfBounds)"

definition store :: "'a tensor \<Rightarrow> error + 'a list \<Rightarrow> error + 'a tensor" where
  "store t r = (case r of Inl e \<Rightarrow> Inl e | Inr d \<Rightarrow> Inr (t\<lparr>data := d\<rparr>))"

definition cpu_pixel_shuffle :: "'a tensor \<Rightarrow> 'a tensor \<Rightarrow> nat \<Rightarrow> error + 'a tensor" where
  "cpu_pixel_shuffle output input upscale_factor =
     (let channels = size_at input (- 3);
          height = size_at input (- 2);
          width = size_at input (- 1);
          S = upscale_factor
      in if upscale_factor * upscale_factor = 0 then Inl DivisionByZero
         else if channels * height * width = 0 then Inl DivisionByZero
         else
           let sub_channels = channels div (upscale_factor * upscale_factor);
               nbatch = numel input div (channels * height * width);
               stride_n = channels * height * width;
               stride_c = S * S * height * width;
               stride_s1 = S * height * width;
               stride_s2 = height * width;
               stride_h = width;
               stride_w = 1;
               exts = [nbatch, sub_channels, height, S, width, S];
               input_offset = (\<lambda>idx. case idx of
                   [n, c, h, s1, w, s2] \<Rightarrow>
                     n * stride_n + c * stride_c + s1 * stride_s1 +
                     s2 * stride_s2 + h * stride_h + w * stride_w
                 | _ \<Rightarrow> 0)
           in store output
                (parallel_for 0 (numel input)
                   (\<lambda>begin end.
                      index_loop (\<lambda>i idx. copy_element (data input) (input_offset idx) i)
                        exts begin end (snd (data_index_init begin exts)))
                   (data output)))"

definition cpu_pixel_shuffle_channels_last :: "'a tensor \<Rightarrow> 'a tensor \<Rightarrow> nat \<Rightarrow> error + 'a tensor" where
  "cpu_pixel_shuffle_channels_last output input upscale_factor =
     (if ndimension input \<noteq> 4 then Inl InvalidLayout
      else
        let nbatch = size_at input 0;
            channels = size_at input 1;
            height = size_at input 2;
            width = size_at input 3;
            S = upscale_factor
        in if upscale_factor * upscale_factor = 0 then Inl DivisionByZero
           else
             let sub_channels = channels div (upscale_factor * upscale_factor);
                 stride_n = height * width * channels;
                 stride_h = width * channels;
                 stride_w = channels;
                 stride_c = S * S;
                 stride_s1 = S;
                 stride_s2 = 1;
                 exts = [nbatch, height, S, width, S, sub_channels];
                 input_offset = (\<lambda>idx. case idx of
                     [n, h, s1, w, s2, c] \<Rightarrow>
                       n * stride_n + h * stride_h + w * stride_w +
                       c * stride_c + s1 * stride_s1 + s2 * stride_s2
                   | _ \<Rightarrow> 0)
             in store output
                  (parallel_for 0 (numel input)
                     (\<lambda>begin end.
                        index_loop (\<lambda>i idx. copy_element (data input) (input_offset idx) i)
                          exts begin end (snd (data_index_init begin exts)))
                     (data output)))"

definition cpu_pixel_shuffle_backward :: "'a tensor \<Rightarrow> 'a tensor \<Rightarrow> nat \<Rightarrow> error + 'a tensor" where
  "cpu_pixel_shuffle_backward grad_input grad_output upscale_factor =
     (let channels = size_at grad_input (- 3);
          height = size_at grad_input (- 2);
          width = size_at grad_input (- 1);
          S = upscale_factor
      in if upscale_factor * upscale_factor = 0 then Inl DivisionByZero
         else if channels * height * width = 0 then Inl DivisionByZero
         else
           let sub_channels = channels div (upscale_factor * upscale_factor);
               nbatch = numel grad_input div (channels * height * width);
               stride_n = channels * height * width;
               stride_c = height * S * width * S;
               stride_h = S * width * S;
               stride_s1 = width * S;
               stride_w = S;
               stride_s2 = 1;
               exts = [nbatch, sub_channels, S, S, height, width];
               output_offset = (\<lambda>idx. case idx of
                   [n, c, s1, s2, h, w] \<Rightarrow>
                     n * stride_n + c * stride_c + h * stride_h +
                     s1 * stride_s1 + w * stride_w + s2 * stride_s2
                 | _ \<Rightarrow> 0)
           in store grad_input
                (parallel_for 0 (numel grad_input)
                   (\<lambda>begin end.
                      index_loop (\<lambda>i idx. copy_element (data grad_output) (output_offset idx) i)
                        exts begin end (snd (data_index_init begin exts)))
                   (data grad_input)))"

definition cpu_pixel_shuffle_backward_channels_last ::
  "'a tensor \<Rightarrow> 'a tensor \<Rightarrow> nat \<Rightarrow> error + 'a tensor" where
  "cpu_pixel_shuffle_backward_channels_last grad_input grad_output upscale_factor =
     (if ndimension grad_output \<noteq> 4 then Inl InvalidLayout
      else
        let nbatch = size_at grad_input 0;
            channels = size_at grad_input 1;
            height = size_at grad_input 2;
            width = size_at grad_input 3;
            S = upscale_factor
        in if upscale_factor * upscale_factor = 0 then Inl DivisionByZero
           else
             let sub_channels = channels div (upscale_factor * upscale_factor);
                 stride_n = height * width * channels;
                 stride_h = S * width * S * sub_channels;
                 stride_s1 = width * S * sub_channels;
                 stride_w = S * sub_channels;
                 stride_s2 = sub_channels;
                 stride_c = 1;
                 exts = [nbatch, height, width, sub_channels, S, S];
                 output_offset = (\<lambda>idx. case idx of
                     [n, h, w, c, s1, s2] \<Rightarrow>
                       n * stride_n + h * stride_h + s1 * stride_s1 +
                       w * stride_w + s2 * stride_s2 + c * stride_c
                   | _ \<Rightarrow> 0)
             in store grad_input
                  (parallel_for 0 (numel grad_input)
                     (\<lambda>begin end.
                        index_loop (\<lambda>i idx. copy_element (data grad_output) (output_offset idx) i)
                          exts begin end (snd (data_index_init begin exts)))
                     (data grad_input)))"

text \<open>The dispatchers: the memory format selects the kernel, the element kind must be a float.\<close>

definition pixel_shuffle_kernel :: "'a tensor \<Rightarrow> 'a tensor \<Rightarrow> nat \<Rightarrow> error + 'a tensor" where
  "pixel_shuffle_kernel output input upscale_factor =
     (case suggest_memory_format input of
        Contiguous \<Rightarrow>
          if AT_DISPATCH_FLOATING_TYPES (scalar_type input)
          then cpu_pixel_shuffle output input upscale_factor
          else Inl UnsupportedScalarType
      | ChannelsLast \<Rightarrow>
          if AT_DISPATCH_FLOATING_TYPES (scalar_type input)
          then cpu_pixel_shuffle_channels_last output input upscale_factor
          else Inl UnsupportedScalarType
      | _ \<Rightarrow> Inl InvalidLayout)"

definition pixel_shuffle_backward_kernel :: "'a tensor \<Rightarrow> 'a tensor \<Rightarrow> nat \<Rightarrow> error + 'a tensor" where
  "pixel_shuffle_backward_kernel grad_input grad_output upscale_factor =
     (case suggest_memory_format grad_output of
        Contiguous \<Rightarrow>
          if AT_DISPATCH_FLOATING_TYPES (scalar_type grad_output)
          then cpu_pixel_shuffle_backward grad_input grad_output upscale_factor
          else Inl UnsupportedScalarType
      | ChannelsLast \<Rightarrow>
          if AT_DISPATCH_FLOATING_TYPES (scalar_type grad_output)
          then cpu_pixel_shuffle_backward_channels_last grad_input grad_output upscale_factor
          else Inl UnsupportedScalarType
      | _ \<Rightarrow> Inl InvalidLayout)"

definition pixel_unshuffle_kernel :: "'a tensor \<Rightarrow> 'a tensor \<Rightarrow> nat \<Rightarrow> error + 'a tensor" where
  "pixel_unshuffle_kernel output input downscale_factor =
     (case suggest_memory_format input of
        Contiguous \<Rightarrow>
          if AT_DISPATCH_FLOATING_TYPES (scalar_type input)
          then cpu_pixel_shuffle_backward output input downscale_factor
          else Inl UnsupportedScalarType
      | ChannelsLast \<Rightarrow>
          if AT_DISPATCH_FLOATING_TYPES (scalar_type input)
          then cpu_pixel_shuffle_backward_channels_last output input downscale_factor
          else Inl UnsupportedScalarType
      | _ \<Rightarrow> Inl InvalidLayout)"

definition pixel_unshuffle_backward_kernel :: "'a tensor \<Rightarrow> 'a tensor \<Rightarrow> nat \<Rightarrow> error + 'a tensor" where
  "pixel_unshuffle_backward_kernel grad_input grad_output downscale_factor =
     (case suggest_memory_format grad_output of
        Contiguous \<Rightarrow>
          if AT_DISPATCH_FLOATING_TYPES (scalar_type grad_output)
          then cpu_pixel_shuffle grad_input grad_output downscale_factor
          else Inl UnsupportedScalarType
      | ChannelsLast \<Rightarrow>
          if AT_DISPATCH_FLOATING_TYPES (scalar_type grad_output)
          then cpu_pixel_shuffle_channels_last grad_input grad_output downscale_factor
          else Inl UnsupportedScalarType
      | _ \<Rightarrow> Inl InvalidLayout)"

text \<open>
  The four operations on whole tensors.  They are reached only after the checks
  of \<open>pixel_shuffle\<close> and \<open>pixel_unshuffle\<close> below (or, for the two backward
  operations, with the factor those saved), so the factor is a natural number
  here; a rank under 3, on which \<^verbatim>\<open>sizes().end() - 3\<close> has no meaning, and a zero
  factor, by which the sizes cannot be divided, are errors.
\<close>

definition pixel_shuffle_output_sizes :: "'a tensor \<Rightarrow> nat \<Rightarrow> nat list" where
  "pixel_shuffle_output_sizes self upscale_factor =
     take (length (sizes self) - 3) (sizes self) @
     [size_at self (- 3) div upscale_factor div upscale_factor,
      size_at self (- 2) * upscale_factor,
      size_at self (- 1) * upscale_factor]"

definition pixel_shuffle_cpu :: "(nat \<Rightarrow> 'a) \<Rightarrow> 'a tensor \<Rightarrow> nat \<Rightarrow> error + 'a tensor" where
  "pixel_shuffle_cpu junk self upscale_factor =
     (if ndimension self < 3 then Inl IndexError
      else if upscale_factor = 0 then Inl DivisionByZero
      else
        let output_sizes = pixel_shuffle_output_sizes self upscale_factor;
            memory_format = suggest_memory_format self;
            output = empty_resized junk (scalar_type self) output_sizes memory_format;
            input = contiguous self memory_format
        in pixel_shuffle_kernel output input upscale_factor)"

definition pixel_shuffle_backward_cpu ::
  "(nat \<Rightarrow> 'a) \<Rightarrow> 'a tensor \<Rightarrow> nat list \<Rightarrow> nat \<Rightarrow> error + 'a tensor" where
  "pixel_shuffle_backward_cpu junk grad_output input_sizes upscale_factor =
     (let memory_format = suggest_memory_format grad_output;
          grad_input = empty_resized junk (scalar_type grad_output) input_sizes memory_format;
          grad_output' = contiguous grad_output memory_format
      in pixel_shuffle_backward_kernel grad_input grad_output' upscale_factor)"

definition pixel_unshuffle_output_sizes :: "'a tensor \<Rightarrow> nat \<Rightarrow> nat list" where
  "pixel_unshuffle_output_sizes self downscale_factor =
     take (length (sizes self) - 3) (sizes self) @
     [size_at self (- 3) * downscale_factor * downscale_factor,
      size_at self (- 2) div downscale_factor,
      size_at self (- 1) div downscale_factor]"

definition pixel_unshuffle_cpu :: "(nat \<Rightarrow> 'a) \<Rightarrow> 'a tensor \<Rightarrow> nat \<Rightarrow> error + 'a tensor" where
  "pixel_unshuffle_cpu junk self downscale_factor =
     (if ndimension self < 3 then Inl IndexError
      else if downscale_factor = 0 then Inl DivisionByZero
      else
        let output_sizes = pixel_unshuffle_output_sizes self downscale_factor;
            memory_format = suggest_memory_format self;
            output = empty_resized junk (scalar_type self) output_sizes memory_format;
            input = contiguous self memory_format
        in pixel_unshuffle_kernel output input downscale_factor)"

definition pixel_unshuffle_backward_cpu ::
  "(nat \<Rightarrow> 'a) \<Rightarrow> 'a tensor \<Rightarrow> nat list \<Rightarrow> nat \<Rightarrow> error + 'a tensor" where
  "pixel_unshuffle_backward_cpu junk grad_output input_sizes downscale_factor =
     (let memory_format = suggest_memory_format grad_output;
          grad_input = empty_resized junk (scalar_type grad_output) input_sizes memory_format;
          grad_output' = contiguous grad_output memory_format
      in pixel_unshuffle_backward_kernel grad_input grad_output' downscale_factor)"

text \<open>
  The differentiable wrappers.  \<open>forward\<close> saves the factor and the sizes of the
  input in the context and calls \<open>_forward\<close>; \<open>backward\<close> reads them back.
\<close>

record autograd_context =
  saved_factor :: int
  saved_input_sizes :: "nat list"

definition PixelShuffleOp__forward :: "(nat \<Rightarrow> 'a) \<Rightarrow> 'a tensor \<Rightarrow> int \<Rightarrow> error + 'a tensor" where
  "PixelShuffleOp__forward junk self upscale_factor = pixel_shuffle_cpu junk self (nat upscale_factor)"

definition PixelShuffleOp_forward ::
  "(nat \<Rightarrow> 'a) \<Rightarrow> 'a tensor \<Rightarrow> int \<Rightarrow> autograd_context \<times> (error + 'a tensor)" where
  "PixelShuffleOp_forward junk self upscale_factor =
     (\<lparr>saved_factor = upscale_factor, saved_input_sizes = sizes self\<rparr>,
      PixelShuffleOp__forward junk self upscale_factor)"

definition PixelShuffleOp_backward ::
  "(nat \<Rightarrow> 'a) \<Rightarrow> autograd_context \<Rightarrow> 'a tensor \<Rightarrow> error + 'a tensor" where
  "PixelShuffleOp_backward junk ctx grad_output =
     (let upscale_factor = saved_factor ctx;
          input_sizes = saved_input_sizes ctx
      in pixel_shuffle_backward_cpu junk grad_output input_sizes (nat upscale_factor))"

definition PixelUnshuffleOp__forward :: "(nat \<Rightarrow> 'a) \<Rightarrow> 'a tensor \<Rightarrow> int \<Rightarrow> error + 'a tensor" where
  "PixelUnshuffleOp__forward junk self downscale_factor =
     pixel_unshuffle_cpu junk self (nat downscale_factor)"

definition PixelUnshuffleOp_forward ::
  "(nat \<Rightarrow> 'a) \<Rightarrow> 'a tensor \<Rightarrow> int \<Rightarrow> autograd_context \<times> (error + 'a tensor)" where
  "PixelUnshuffleOp_forward junk self downscale_factor =
     (\<lparr>saved_factor = downscale_factor, saved_input_sizes = sizes self\<rparr>,
      PixelUnshuffleOp__forward junk self downscale_factor)"

definition PixelUnshuffleOp_backward ::
  "(nat \<Rightarrow> 'a) \<Rightarrow> autograd_context \<Rightarrow> 'a tensor \<Rightarrow> error + 'a tensor" where
  "PixelUnshuffleOp_backward junk ctx grad_output =
     (let downscale_factor = saved_factor ctx;
          input_sizes = saved_input_sizes ctx
      in pixel_unshuffle_backward_cpu junk grad_output input_sizes (nat downscale_factor))"

text \<open>
  The registered entry points, with their checks in the order of the source.
  \<open>grad_mode\<close> is \<^verbatim>\<open>at::GradMode::is_enabled()\<close>: with it the context is saved on
  the way; the tensor returned is the same.  The factor is a 64-bit integer; its
  square, which the source computes in 64 bits, is an error of its own when it
  does not fit.
\<close>

definition pixel_shuffle :: "bool \<Rightarrow> (nat \<Rightarrow> 'a) \<Rightarrow> 'a tensor \<Rightarrow> int \<Rightarrow> error + 'a tensor" where
  "pixel_shuffle grad_mode junk self upscale_factor =
     (if \<not> ndimension self \<ge> 3 then Inl InvalidArgument
      else if \<not> upscale_factor > 0 then Inl InvalidArgument
      else
        let c = int (size_at self (- 3))
        in if \<not> upscale_factor * upscale_factor < 2 ^ 63 then Inl IntegerOverflow
           else
             let upscale_factor_squared = upscale_factor * upscale_factor
             in if \<not> c mod upscale_factor_squared = 0 then Inl InvalidArgument
                else if grad_mode then snd (PixelShuffleOp_forward junk self upscale_factor)
                else PixelShuffleOp__forward junk self upscale_factor)"

definition pixel_unshuffle :: "bool \<Rightarrow> (nat \<Rightarrow> 'a) \<Rightarrow> 'a tensor \<Rightarrow> int \<Rightarrow> error + 'a tensor" where
  "pixel_unshuffle grad_mode junk self downscale_factor =
     (if \<not> ndimension self \<ge> 3 then Inl InvalidArgument
      else if \<not> downscale_factor > 0 then Inl InvalidArgument
      else
        let h = int (size_at self (- 2));
            w = int (size_at self (- 1))
        in if \<not> h mod downscale_factor = 0 then Inl InvalidArgument
           else if \<not> w mod downscale_factor = 0 then Inl InvalidArgument
           else if grad_mode then snd (PixelUnshuffleOp_forward junk self downscale_factor)
           else PixelUnshuffleOp__forward junk self downscale_factor)"

section \<open>Average pooling\<close>

text \<open>
  The arithmetic of an element kind.  In the model the kind of a tensor is a tag,
  so the operations the C++ templates get from \<open>scalar_t\<close> are parameters: the
  conversions to and from the 32-bit float in which the reduced-precision
  instances accumulate, and the division of a float and of an element by the
  64-bit divisor.  Addition and zero come from the type classes.  Whether the
  division by zero traps follows from the tag: it does for the integer kind.
\<close>

record ('a, 'f) numerics =
  to_float :: "'a \<Rightarrow> 'f"
  from_float :: "'f \<Rightarrow> 'a"
  float_div :: "'f \<Rightarrow> int \<Rightarrow> 'f"
  scalar_div :: "'a \<Rightarrow> int \<Rightarrow> 'a"

text \<open>
  The window of an output position and its divisor, computed by the same lines
  in all five kernels: the window with padding, cut at the padded input, gives
  \<open>pool_size\<close>; cut at the input itself it gives the elements to add up.
\<close>

definition pool_window ::
  "int \<Rightarrow> int \<Rightarrow> int \<Rightarrow> int \<Rightarrow> int \<Rightarrow> int \<Rightarrow> int \<Rightarrow> int \<Rightarrow> int \<Rightarrow> int \<Rightarrow> int \<times> int \<times> int \<times> int \<times> int" where
  "pool_window oh ow kW kH dW dH padW padH input_height input_width =
     (let ih0 = oh * dH - padH;
          iw0 = ow * dW - padW;
          ih1 = min (ih0 + kH) (input_height + padH);
          iw1 = min (iw0 + kW) (input_width + padW);
          pool_size = (ih1 - ih0) * (iw1 - iw0);
          ih0 = max ih0 0;
          iw0 = max iw0 0;
          ih1 = min ih1 input_height;
          iw1 = min iw1 input_width
      in (ih0, iw0, ih1, iw1, pool_size))"

definition pool_divide_factor :: "int option \<Rightarrow> bool \<Rightarrow> int \<times> int \<times> int \<times> int \<times> int \<Rightarrow> int" where
  "pool_divide_factor divisor_override count_include_pad win =
     (case win of (ih0, iw0, ih1, iw1, pool_size) \<Rightarrow>
        (case divisor_override of
           Some d \<Rightarrow> d
         | None \<Rightarrow> if count_include_pad then pool_size else (ih1 - ih0) * (iw1 - iw0)))"

text \<open>
  An operation on the \<open>size'\<close> channels that start at \<open>base\<close>.  The vector loop over
  whole lanes and the scalar loop over the rest apply the same operation to every
  channel, one channel at a time.
\<close>

definition lane_update :: "(nat \<Rightarrow> 'a \<Rightarrow> 'a) \<Rightarrow> nat \<Rightarrow> nat \<Rightarrow> 'a list \<Rightarrow> 'a list" where
  "lane_update f base size' buf =
     fold (\<lambda>d b. b[base + d := f d (b ! (base + d))]) [0..<size'] buf"

text \<open>
  What every pooling kernel does at its end: the buffer it computed in its own
  layout is the result, copied back into the tensor it was given when that
  tensor has another layout (\<^verbatim>\<open>if (!output_.is_contiguous(memory_format)) output_.copy_(output)\<close>).
\<close>

definition write_back :: "'a tensor \<Rightarrow> 'a tensor \<Rightarrow> MemoryFormat \<Rightarrow> error + 'a list \<Rightarrow> error + 'a tensor" where
  "write_back output' output fmt r =
     (case r of
        Inl e \<Rightarrow> Inl e
      | Inr d \<Rightarrow>
          if memory_format output' \<noteq> fmt then Inr (copy_into output' (output\<lparr>data := d\<rparr>))
          else Inr (output\<lparr>data := d\<rparr>))"

subsection \<open>Forward kernels\<close>

definition cpu_avg_pool_body ::
  "('a::{zero,plus} \<Rightarrow> 'acc::{zero,plus}) \<Rightarrow> ('acc \<Rightarrow> 'a) \<Rightarrow> ('acc \<Rightarrow> int \<Rightarrow> 'acc) \<Rightarrow> bool \<Rightarrow>
   'a list \<Rightarrow> int \<Rightarrow> int \<Rightarrow>
   int \<Rightarrow> int \<Rightarrow> int \<Rightarrow> int \<Rightarrow> int \<Rightarrow> int \<Rightarrow> bool \<Rightarrow> int option \<Rightarrow>
   nat \<Rightarrow> nat list \<Rightarrow> 'a list \<Rightarrow> error + 'a list" where
  "cpu_avg_pool_body widen narrow acc_div traps input_data input_height input_width
     kW kH dW dH padW padH count_include_pad divisor_override i idx output_data =
     (case idx of
        [c, oh, ow] \<Rightarrow>
          if \<not> i < length output_data then Inl OutOfBounds
          else
            let output_data = output_data[i := 0];
                input_ptr = int c * input_height * input_width;
                win = pool_window (int oh) (int ow) kW kH dW dH padW padH input_height input_width
            in (case win of (ih0, iw0, ih1, iw1, pool_size) \<Rightarrow>
                 if ih0 \<ge> ih1 \<or> iw0 \<ge> iw1 then Inr output_data
                 else
                   let divide_factor = pool_divide_factor divisor_override count_include_pad win;
                       sum = fold (\<lambda>ih sum.
                               fold (\<lambda>iw sum.
                                 sum + widen (input_data ! nat (input_ptr + ih * input_width + iw)))
                               [iw0..iw1 - 1] sum)
                             [ih0..ih1 - 1] 0
                   in if traps \<and> divide_factor = 0 then Inl DivisionByZero
                      else Inr (output_data[i := output_data ! i + narrow (acc_div sum divide_factor)]))
      | _ \<Rightarrow> Inl UnexpectedState)"

definition cpu_avg_pool ::
  "('a::{zero,plus} \<Rightarrow> 'acc::{zero,plus}) \<Rightarrow> ('acc \<Rightarrow> 'a) \<Rightarrow> ('acc \<Rightarrow> int \<Rightarrow> 'acc) \<Rightarrow> bool \<Rightarrow>
   'a tensor \<Rightarrow> 'a tensor \<Rightarrow>
   int \<Rightarrow> int \<Rightarrow> int \<Rightarrow> int \<Rightarrow> int \<Rightarrow> int \<Rightarrow> bool \<Rightarrow> int option \<Rightarrow>
   error + 'a tensor" where
  "cpu_avg_pool widen narrow acc_div traps output' input'
     kW kH dW dH padW padH count_include_pad divisor_override =
     (let input = contiguous input' Contiguous;
          output = contiguous output' Contiguous;
          ndim = ndimension input;
          channels = (if ndim = 3 then size_at input 0 else size_at input 0 * size_at input 1);
          input_height = size_at input (- 2);
          input_width = size_at input (- 1);
          output_height = size_at output (- 2);
          output_width = size_at output (- 1);
          exts = [channels, output_height, output_width]
      in write_back output' output Contiguous
           (parallel_for 0 (numel output)
              (\<lambda>begin end.
                 index_loop
                   (cpu_avg_pool_body widen narrow acc_div traps (data input)
                      (int input_height) (int input_width)
                      kW kH dW dH padW padH count_include_pad divisor_override)
                   exts begin end (snd (data_index_init begin exts)))
              (data output)))"

definition cpu_avg_pool_channels_last_body ::
  "('a::{zero,plus} \<Rightarrow> int \<Rightarrow> 'a) \<Rightarrow> bool \<Rightarrow> 'a list \<Rightarrow> nat \<Rightarrow> int \<Rightarrow> int \<Rightarrow>
   int \<Rightarrow> int \<Rightarrow> int \<Rightarrow> int \<Rightarrow> int \<Rightarrow> int \<Rightarrow> bool \<Rightarrow> int option \<Rightarrow>
   nat \<Rightarrow> nat list \<Rightarrow> 'a list \<Rightarrow> error + 'a list" where
  "cpu_avg_pool_channels_last_body sdiv traps input_data channels input_height input_width
     kW kH dW dH padW padH count_include_pad divisor_override i idx output_data =
     (case idx of
        [n, oh, ow] \<Rightarrow>
          let win = pool_window (int oh) (int ow) kW kH dW dH padW padH input_height input_width;
              divide_factor = pool_divide_factor divisor_override count_include_pad win;
              out = i * channels;
              size' = channels
          in if \<not> out + size' \<le> length output_data then Inl OutOfBounds
             else
               let output_data = lane_update (\<lambda>d v. 0) out size' output_data
               in (case win of (ih0, iw0, ih1, iw1, pool_size) \<Rightarrow>
                    if ih0 \<ge> ih1 \<or> iw0 \<ge> iw1 then Inr output_data
                    else
                      let output_data =
                            fold (\<lambda>ih output_data.
                              fold (\<lambda>iw output_data.
                                let inp = nat (int n * input_height * input_width * int channels +
                                               ih * input_width * int channels + iw * int channels)
                                in lane_update (\<lambda>d v. v + input_data ! (inp + d)) out size' output_data)
                              [iw0..iw1 - 1] output_data)
                            [ih0..ih1 - 1] output_data
                      in if traps \<and> divide_factor = 0 \<and> 0 < size' then Inl DivisionByZero
                         else Inr (lane_update (\<lambda>d v. sdiv v divide_factor) out size' output_data))
      | _ \<Rightarrow> Inl UnexpectedState)"

definition cpu_avg_pool_channels_last ::
  "('a::{zero,plus} \<Rightarrow> int \<Rightarrow> 'a) \<Rightarrow> bool \<Rightarrow> 'a tensor \<Rightarrow> 'a tensor \<Rightarrow>
   int \<Rightarrow> int \<Rightarrow> int \<Rightarrow> int \<Rightarrow> int \<Rightarrow> int \<Rightarrow> bool \<Rightarrow> int option \<Rightarrow>
   error + 'a tensor" where
  "cpu_avg_pool_channels_last sdiv traps output' input'
     kW kH dW dH padW padH count_include_pad divisor_override =
     (if ndimension input' \<noteq> 4 then Inl InvalidLayout
      else
        let input = contiguous input' ChannelsLast;
            output = contiguous output' ChannelsLast;
            nbatch = size_at input 0;
            channels = size_at input 1;
            input_height = size_at input 2;
            input_width = size_at input 3;
            output_height = size_at output 2;
            output_width = size_at output 3;
            exts = [nbatch, output_height, output_width]
        in write_back output' output ChannelsLast
             (parallel_for 0 (nbatch * output_height * output_width)
                (\<lambda>begin end.
                   index_loop
                     (cpu_avg_pool_channels_last_body sdiv traps (data input) channels
                        (int input_height) (int input_width)
                        kW kH dW dH padW padH count_include_pad divisor_override)
                     exts begin end (snd (data_index_init begin exts)))
                (data output)))"

text \<open>
  The BFloat16 instance of the channels-last kernel adds up in a scratch array
  of floats, \<open>sum_arr\<close>, one per chunk; the state of its loop is that array together
  with the output buffer.  The array starts with whatever the memory held.
\<close>

definition cpu_avg_pool_channels_last_bfloat16_body ::
  "('a::zero \<Rightarrow> 'f::{zero,plus}) \<Rightarrow> ('f \<Rightarrow> 'a) \<Rightarrow> ('f \<Rightarrow> int \<Rightarrow> 'f) \<Rightarrow> 'a list \<Rightarrow> nat \<Rightarrow> int \<Rightarrow> int \<Rightarrow>
   int \<Rightarrow> int \<Rightarrow> int \<Rightarrow> int \<Rightarrow> int \<Rightarrow> int \<Rightarrow> bool \<Rightarrow> int option \<Rightarrow>
   nat \<Rightarrow> nat list \<Rightarrow> 'f list \<times> 'a list \<Rightarrow> error + ('f list \<times> 'a list)" where
  "cpu_avg_pool_channels_last_bfloat16_body widen narrow fdiv input_data channels
     input_height input_width kW kH dW dH padW padH count_include_pad divisor_override i idx st =
     (case idx of
        [n, oh, ow] \<Rightarrow>
          (case st of (sum_arr, output_data) \<Rightarrow>
            let win = pool_window (int oh) (int ow) kW kH dW dH padW padH input_height input_width;
                divide_factor = pool_divide_factor divisor_override count_include_pad win;
                out = i * channels;
                size' = channels
            in if \<not> out + size' \<le> length output_data then Inl OutOfBounds
               else
                 let sum_arr = lane_update (\<lambda>d v. 0) 0 size' sum_arr
                 in (case win of (ih0, iw0, ih1, iw1, pool_size) \<Rightarrow>
                      if ih0 \<ge> ih1 \<or> iw0 \<ge> iw1
                      then Inr (sum_arr, fold (\<lambda>k output_data. output_data[out + k := 0]) [0..<size'] output_data)
                      else
                        let sum_arr =
                              fold (\<lambda>ih sum_arr.
                                fold (\<lambda>iw sum_arr.
                                  let inp = nat (int n * input_height * input_width * int channels +
                                                 ih * input_width * int channels + iw * int channels)
                                  in lane_update (\<lambda>d v. v + widen (input_data ! (inp + d))) 0 size' sum_arr)
                                [iw0..iw1 - 1] sum_arr)
                              [ih0..ih1 - 1] sum_arr
                        in Inr (sum_arr,
                                fold (\<lambda>d output_data.
                                        output_data[out + d := narrow (fdiv (sum_arr ! d) divide_factor)])
                                  [0..<size'] output_data)))
      | _ \<Rightarrow> Inl UnexpectedState)"

definition cpu_avg_pool_channels_last_bfloat16 ::
  "('a::zero \<Rightarrow> 'f::{zero,plus}) \<Rightarrow> ('f \<Rightarrow> 'a) \<Rightarrow> ('f \<Rightarrow> int \<Rightarrow> 'f) \<Rightarrow> (nat \<Rightarrow> 'f) \<Rightarrow>
   'a tensor \<Rightarrow> 'a tensor \<Rightarrow>
   int \<Rightarrow> int \<Rightarrow> int \<Rightarrow> int \<Rightarrow> int \<Rightarrow> int \<Rightarrow> bool \<Rightarrow> int option \<Rightarrow>
   error + 'a tensor" where
  "cpu_avg_pool_channels_last_bfloat16 widen narrow fdiv sum_junk output' input'
     kW kH dW dH padW padH count_include_pad divisor_override =
     (if ndimension input' \<noteq> 4 then Inl InvalidLayout
      else
        let input = contiguous input' ChannelsLast;
            output = contiguous output' ChannelsLast;
            nbatch = size_at input 0;
            channels = size_at input 1;
            input_height = size_at input 2;
            input_width = size_at input 3;
            output_height = size_at output 2;
            output_width = size_at output 3;
            exts = [nbatch, output_height, output_width]
        in write_back output' output ChannelsLast
             (parallel_for 0 (nbatch * output_height * output_width)
                (\<lambda>begin end output_data.
                   case index_loop
                          (cpu_avg_pool_channels_last_bfloat16_body widen narrow fdiv (data input)
                             channels (int input_height) (int input_width)
                             kW kH dW dH padW padH count_include_pad divisor_override)
                          exts begin end (snd (data_index_init begin exts))
                          (map sum_junk [0..<channels], output_data) of
                     Inl e \<Rightarrow> Inl e
                   | Inr (sum_arr, output_data) \<Rightarrow> Inr output_data)
                (data output)))"

subsection \<open>Backward kernels\<close>

text \<open>
  One output position of the packed backward kernel: the gradient of the
  position is read and divided by the divisor of its window, and the quotient is
  added to every input position of the window.  A read outside the gradient, a
  write outside the gradient of the input and a trapping division are errors.
\<close>

definition cpu_avg_pool_backward_window ::
  "('a::plus \<Rightarrow> int \<Rightarrow> 'a) \<Rightarrow> bool \<Rightarrow> 'a list \<Rightarrow> int \<Rightarrow> int \<Rightarrow> int \<Rightarrow> int \<Rightarrow>
   int \<Rightarrow> int \<Rightarrow> int \<Rightarrow> int \<Rightarrow> int \<Rightarrow> int \<Rightarrow> bool \<Rightarrow> int option \<Rightarrow>
   int \<Rightarrow> int \<Rightarrow> int \<Rightarrow> 'a list \<Rightarrow> error + 'a list" where
  "cpu_avg_pool_backward_window sdiv traps grad_output_data input_height input_width
     output_height output_width kW kH dW dH padW padH count_include_pad divisor_override
     c oh ow grad_input_data =
     (let grad_input_ptr = c * input_height * input_width;
          grad_output_ptr = c * output_height * output_width;
          win = pool_window oh ow kW kH dW dH padW padH input_height input_width;
          divide_factor = pool_divide_factor divisor_override count_include_pad win;
          gout = grad_output_ptr + oh * output_width + ow
      in if \<not> (0 \<le> gout \<and> nat gout < length grad_output_data) then Inl OutOfBounds
         else if traps \<and> divide_factor = 0 then Inl DivisionByZero
         else
           let grad_delta = sdiv (grad_output_data ! nat gout) divide_factor
           in case win of (ih0, iw0, ih1, iw1, pool_size) \<Rightarrow>
                for_each [ih0..ih1 - 1] (\<lambda>ih.
                  for_each [iw0..iw1 - 1] (\<lambda>iw grad_input_data.
                    let gin = grad_input_ptr + ih * input_width + iw
                    in if \<not> (0 \<le> gin \<and> nat gin < length grad_input_data) then Inl OutOfBounds
                       else Inr (grad_input_data
                                   [nat gin := grad_input_data ! nat gin + grad_delta])))
                  grad_input_data)"

definition cpu_avg_pool_backward ::
  "('a::plus \<Rightarrow> int \<Rightarrow> 'a) \<Rightarrow> bool \<Rightarrow> 'a tensor \<Rightarrow> 'a tensor \<Rightarrow>
   int \<Rightarrow> int \<Rightarrow> int \<Rightarrow> int \<Rightarrow> int \<Rightarrow> int \<Rightarrow> bool \<Rightarrow> int option \<Rightarrow> error + 'a tensor" where
  "cpu_avg_pool_backward sdiv traps grad_input' grad_output'
     kW kH dW dH padW padH count_include_pad divisor_override =
     (let grad_output = contiguous grad_output' Contiguous;
          grad_input = contiguous grad_input' Contiguous;
          ndim = ndimension grad_output;
          channels = (if ndim = 3 then size_at grad_output 0
                      else size_at grad_output 0 * size_at grad_output 1);
          input_height = int (size_at grad_input (- 2));
          input_width = int (size_at grad_input (- 1));
          output_height = int (size_at grad_output (- 2));
          output_width = int (size_at grad_output (- 1))
      in write_back grad_input' grad_input Contiguous
           (parallel_for 0 channels
              (\<lambda>begin end.
                 for_each [int begin..int end - 1] (\<lambda>c.
                   for_each [0..output_height - 1] (\<lambda>oh.
                     for_each [0..output_width - 1] (\<lambda>ow.
                       cpu_avg_pool_backward_window sdiv traps (data grad_output)
                         input_height input_width output_height output_width
                         kW kH dW dH padW padH count_include_pad divisor_override c oh ow))))
              (data grad_input)))"

text \<open>
  One output position of the channels-last backward kernel: for every input
  position of the window, the channel vector of the gradient, divided by the
  divisor, is added to the channel vector of the input position.  With at least
  one channel, a channel vector that does not lie inside its buffer and a
  trapping division are errors.
\<close>

definition cpu_avg_pool_backward_channels_last_window ::
  "('a::plus \<Rightarrow> int \<Rightarrow> 'a) \<Rightarrow> bool \<Rightarrow> 'a list \<Rightarrow> nat \<Rightarrow> int \<Rightarrow> int \<Rightarrow> int \<Rightarrow> int \<Rightarrow>
   int \<Rightarrow> int \<Rightarrow> int \<Rightarrow> int \<Rightarrow> int \<Rightarrow> int \<Rightarrow> bool \<Rightarrow> int option \<Rightarrow>
   int \<Rightarrow> int \<Rightarrow> int \<Rightarrow> 'a list \<Rightarrow> error + 'a list" where
  "cpu_avg_pool_backward_channels_last_window sdiv traps grad_output_data channels
     input_height input_width output_height output_width
     kW kH dW dH padW padH count_include_pad divisor_override n oh ow grad_input_data =
     (let grad_input_ptr = n * input_height * input_width * int channels;
          grad_output_ptr = n * output_height * output_width * int channels;
          win = pool_window oh ow kW kH dW dH padW padH input_height input_width;
          divide_factor = pool_divide_factor divisor_override count_include_pad win;
          gout = grad_output_ptr + oh * output_width * int channels + ow * int channels;
          size' = channels
      in case win of (ih0, iw0, ih1, iw1, pool_size) \<Rightarrow>
           for_each [ih0..ih1 - 1] (\<lambda>ih.
             for_each [iw0..iw1 - 1] (\<lambda>iw grad_input_data.
               let gin = grad_input_ptr + ih * input_width * int channels + iw * int channels
               in if 0 < size' \<and>
                     \<not> (0 \<le> gin \<and> nat gin + size' \<le> length grad_input_data \<and>
                        0 \<le> gout \<and> nat gout + size' \<le> length grad_output_data)
                  then Inl OutOfBounds
                  else if traps \<and> divide_factor = 0 \<and> 0 < size' then Inl DivisionByZero
                  else Inr (lane_update
                              (\<lambda>d v. v + sdiv (grad_output_data ! (nat gout + d)) divide_factor)
                              (nat gin) size' grad_input_data)))
             grad_input_data)"

definition cpu_avg_pool_backward_channels_last ::
  "('a::plus \<Rightarrow> int \<Rightarrow> 'a) \<Rightarrow> bool \<Rightarrow> 'a tensor \<Rightarrow> 'a tensor \<Rightarrow>
   int \<Rightarrow> int \<Rightarrow> int \<Rightarrow> int \<Rightarrow> int \<Rightarrow> int \<Rightarrow> bool \<Rightarrow> int option \<Rightarrow> error + 'a tensor" where
  "cpu_avg_pool_backward_channels_last sdiv traps grad_input' grad_output'
     kW kH dW dH padW padH count_include_pad divisor_override =
     (let grad_input = contiguous grad_input' ChannelsLast;
          grad_output = contiguous grad_output' ChannelsLast;
          nbatch = size_at grad_input 0;
          channels = size_at grad_input 1;
          input_height = int (size_at grad_input 2);
          input_width = int (size_at grad_input 3);
          output_height = int (size_at grad_output 2);
          output_width = int (size_at grad_output 3)
      in write_back grad_input' grad_input ChannelsLast
           (parallel_for 0 nbatch
              (\<lambda>begin end.
                 for_each [int begin..int end - 1] (\<lambda>n.
                   for_each [0..output_height - 1] (\<lambda>oh.
                     for_each [0..output_width - 1] (\<lambda>ow.
                       cpu_avg_pool_backward_channels_last_window sdiv traps (data grad_output)
                         channels input_height input_width output_height output_width
                         kW kH dW dH padW padH count_include_pad divisor_override n oh ow))))
              (data grad_input)))"

subsection \<open>Dispatch\<close>

text \<open>
  The layout of the input (of the gradient, backward) selects the kernel; the
  element kind must be a float, Long or BFloat16.  The packed forward kernel
  accumulates BFloat16 in floats; the channels-last forward kernel has its
  BFloat16 instance; an element of kind Long is a 64-bit integer.
\<close>

definition avg_pool2d_kernel_impl ::
  "('a::{zero,plus}, 'f::{zero,plus}) numerics \<Rightarrow> (nat \<Rightarrow> 'f) \<Rightarrow> 'a tensor \<Rightarrow> 'a tensor \<Rightarrow>
   int \<Rightarrow> int \<Rightarrow> int \<Rightarrow> int \<Rightarrow> int \<Rightarrow> int \<Rightarrow> bool \<Rightarrow> int option \<Rightarrow> error + 'a tensor" where
  "avg_pool2d_kernel_impl nm sum_junk output input
     kW kH dW dH padW padH count_include_pad divisor_override =
     (case suggest_memory_format input of
        Contiguous \<Rightarrow>
          if AT_DISPATCH_FLOATING_TYPES_AND2 kLong kBFloat16 (scalar_type input)
          then if scalar_type input = kBFloat16
               then cpu_avg_pool (to_float nm) (from_float nm) (float_div nm) False output input
                      kW kH dW dH padW padH count_include_pad divisor_override
               else cpu_avg_pool (\<lambda>x. x) (\<lambda>x. x) (scalar_div nm) (scalar_type input = kLong)
                      output input kW kH dW dH padW padH count_include_pad divisor_override
          else Inl UnsupportedScalarType
      | ChannelsLast \<Rightarrow>
          if AT_DISPATCH_FLOATING_TYPES_AND2 kLong kBFloat16 (scalar_type input)
          then if scalar_type input = kBFloat16
               then cpu_avg_pool_channels_last_bfloat16 (to_float nm) (from_float nm) (float_div nm)
                      sum_junk output input
                      kW kH dW dH padW padH count_include_pad divisor_override
               else cpu_avg_pool_channels_last (scalar_div nm) (scalar_type input = kLong)
                      output input kW kH dW dH padW padH count_include_pad divisor_override
          else Inl UnsupportedScalarType
      | _ \<Rightarrow> Inl InvalidLayout)"

definition avg_pool2d_backward_kernel_impl ::
  "('a::{zero,plus}, 'f) numerics \<Rightarrow> 'a tensor \<Rightarrow> 'a tensor \<Rightarrow>
   int \<Rightarrow> int \<Rightarrow> int \<Rightarrow> int \<Rightarrow> int \<Rightarrow> int \<Rightarrow> bool \<Rightarrow> int option \<Rightarrow> error + 'a tensor" where
  "avg_pool2d_backward_kernel_impl nm grad_input grad_output
     kW kH dW dH padW padH count_include_pad divisor_override =
     (case suggest_memory_format grad_output of
        Contiguous \<Rightarrow>
          if AT_DISPATCH_FLOATING_TYPES_AND2 kLong kBFloat16 (scalar_type grad_output)
          then cpu_avg_pool_backward (scalar_div nm) (scalar_type grad_output = kLong)
                 grad_input grad_output kW kH dW dH padW padH count_include_pad divisor_override
          else Inl UnsupportedScalarType
      | ChannelsLast \<Rightarrow>
          if AT_DISPATCH_FLOATING_TYPES_AND2 kLong kBFloat16 (scalar_type grad_output)
          then cpu_avg_pool_backward_channels_last (scalar_div nm) (scalar_type grad_output = kLong)
                 grad_input grad_output kW kH dW dH padW padH count_include_pad divisor_override
          else Inl UnsupportedScalarType
      | _ \<Rightarrow> Inl InvalidLayout)"

subsection \<open>Shapes\<close>

text \<open>
  Modelled from the spec: \<^verbatim>\<open>at::native::pooling_output_shape\<close>,
  \<^verbatim>\<open>at::native::pool2d_shape_check\<close> and \<^verbatim>\<open>at::native::avg_pool2d_backward_shape_check\<close>
  belong to the host library and are not among the sources.  Section 3 of the
  specification: the output size follows from the input size, the kernel, the
  stride and the padding by the standard floor or ceiling formula, and in
  ceiling mode the last window must start inside the input or its left padding;
  the checks ask for a positive kernel and stride, a 3-D or 4-D input with no
  empty dimension but the batch, a padding of at most half the kernel, and an
  output of at least one element; backward, the gradient must have the rank of
  the input and the channels, height and width of the output.
\<close>

definition pooling_output_shape :: "int \<Rightarrow> int \<Rightarrow> int \<Rightarrow> int \<Rightarrow> int \<Rightarrow> bool \<Rightarrow> error + int" where
  "pooling_output_shape inputSize kernelSize pad stride dilation ceil_mode =
     (if stride = 0 then Inl InvalidArgument
      else
        let outputSize =
              (inputSize + pad + pad - dilation * (kernelSize - 1) - 1 +
               (if ceil_mode then stride - 1 else 0)) div stride + 1
        in if ceil_mode \<and> (outputSize - 1) * stride \<ge> inputSize + pad
           then Inr (outputSize - 1)
           else Inr outputSize)"

definition pool2d_shape_check ::
  "'a tensor \<Rightarrow> int \<Rightarrow> int \<Rightarrow> int \<Rightarrow> int \<Rightarrow> int \<Rightarrow> int \<Rightarrow> int \<Rightarrow> int \<Rightarrow>
   int \<Rightarrow> int \<Rightarrow> int \<Rightarrow> int \<Rightarrow> int \<Rightarrow> MemoryFormat \<Rightarrow> error option" where
  "pool2d_shape_check input kH kW dH dW padH padW dilationH dilationW
     nInputPlane inputHeight inputWidth outputHeight outputWidth memory_format' =
     (let ndim = ndimension input
      in if \<not> (kW > 0 \<and> kH > 0) then Some InvalidArgument
         else if \<not> (dW > 0 \<and> dH > 0) then Some InvalidArgument
         else if \<not> (dilationH > 0 \<and> dilationW > 0) then Some InvalidArgument
         else if \<not> (if memory_format' = ChannelsLast
                     then ndim = 4 \<and> size_at input 1 \<noteq> 0 \<and> size_at input 2 \<noteq> 0 \<and> size_at input 3 \<noteq> 0
                     else (ndim = 3 \<and> size_at input 0 \<noteq> 0 \<and> size_at input 1 \<noteq> 0 \<and> size_at input 2 \<noteq> 0) \<or>
                          (ndim = 4 \<and> size_at input 1 \<noteq> 0 \<and> size_at input 2 \<noteq> 0 \<and> size_at input 3 \<noteq> 0))
              then Some InvalidLayout
         else if \<not> (kW div 2 \<ge> padW \<and> kH div 2 \<ge> padH) then Some InvalidArgument
         else if \<not> (outputWidth \<ge> 1 \<and> outputHeight \<ge> 1) then Some ShapeMismatch
         else None)"

definition check_dim_size :: "'a tensor \<Rightarrow> nat \<Rightarrow> nat \<Rightarrow> int \<Rightarrow> bool" where
  "check_dim_size t dim' dim_size size' =
     (ndimension t = dim' \<and> dim_size < dim' \<and> int (sizes t ! dim_size) = size')"

definition avg_pool2d_backward_shape_check ::
  "'a tensor \<Rightarrow> 'a tensor \<Rightarrow> int \<Rightarrow> int \<Rightarrow> int \<Rightarrow> int \<Rightarrow> int \<Rightarrow> int \<Rightarrow> int \<Rightarrow>
   int \<Rightarrow> int \<Rightarrow> int \<Rightarrow> int \<Rightarrow> int \<Rightarrow> MemoryFormat \<Rightarrow> error option" where
  "avg_pool2d_backward_shape_check input gradOutput nbatch kH kW dH dW padH padW
     nInputPlane inputHeight inputWidth outputHeight outputWidth memory_format' =
     (case pool2d_shape_check input kH kW dH dW padH padW 1 1
             nInputPlane inputHeight inputWidth outputHeight outputWidth memory_format' of
        Some e \<Rightarrow> Some e
      | None \<Rightarrow>
          let ndim = ndimension input;
              nOutputPlane = nInputPlane
          in if \<not> check_dim_size gradOutput ndim (ndim - 3) nOutputPlane then Some ShapeMismatch
             else if \<not> check_dim_size gradOutput ndim (ndim - 2) outputHeight then Some ShapeMismatch
             else if \<not> check_dim_size gradOutput ndim (ndim - 1) outputWidth then Some ShapeMismatch
             else None)"

text \<open>
  \<^verbatim>\<open>safe_downcast<int, int64_t>\<close>: the value, when it fits 32 bits; otherwise the
  argument is refused (\<^verbatim>\<open>TORCH_CHECK(false, "integer out of range")\<close>).
\<close>

definition safe_downcast :: "int \<Rightarrow> error + int" where
  "safe_downcast v = (if - (2 ^ 31) \<le> v \<and> v < 2 ^ 31 then Inr v else Inl InvalidArgument)"

subsection \<open>Entry points\<close>

text \<open>
  The entry points run their checks in the order of the source; \<open>check\<close> is one
  \<^verbatim>\<open>TORCH_CHECK\<close>, \<open>bind\<close> continues with the value of a step that did not fail.
\<close>

definition check :: "bool \<Rightarrow> error \<Rightarrow> (error + 'a) \<Rightarrow> error + 'a" where
  "check cond e k = (if cond then k else Inl e)"

definition bind :: "error + 'a \<Rightarrow> ('a \<Rightarrow> error + 'b) \<Rightarrow> error + 'b" where
  "bind m k = (case m of Inl e \<Rightarrow> Inl e | Inr x \<Rightarrow> k x)"

text \<open>
  What an entry point does once the size lists are read and checked: it reads the
  sizes of the input, computes the output sizes, checks the shapes, allocates
  the result and runs the kernel.
\<close>

definition avg_pool2d_out_cpu_sized ::
  "('a::{zero,plus}, 'f::{zero,plus}) numerics \<Rightarrow> (nat \<Rightarrow> 'a) \<Rightarrow> (nat \<Rightarrow> 'f) \<Rightarrow> 'a tensor \<Rightarrow>
   int \<Rightarrow> int \<Rightarrow> int \<Rightarrow> int \<Rightarrow> int \<Rightarrow> int \<Rightarrow> bool \<Rightarrow> bool \<Rightarrow> int option \<Rightarrow> error + 'a tensor" where
  "avg_pool2d_out_cpu_sized nm junk sum_junk input kH kW dH dW padH padW
     ceil_mode count_include_pad divisor_override =
     check (3 \<le> ndimension input) IndexError
     (let nbatch = (if ndimension input = 4 then size_at input (- 4) else 1);
          nInputPlane = size_at input (- 3);
          inputHeight = int (size_at input (- 2));
          inputWidth = int (size_at input (- 1))
      in
     bind (pooling_output_shape inputHeight kH padH dH 1 ceil_mode) (\<lambda>outputHeight.
     bind (pooling_output_shape inputWidth kW padW dW 1 ceil_mode) (\<lambda>outputWidth.
     let memory_format = suggest_memory_format input
     in case pool2d_shape_check input kH kW dH dW padH padW 1 1
               (int nInputPlane) inputHeight inputWidth outputHeight outputWidth memory_format of
          Some e \<Rightarrow> Inl e
        | None \<Rightarrow>
            let output =
                  (if ndimension input = 3
                   then empty_resized junk (scalar_type input)
                          [nInputPlane, nat outputHeight, nat outputWidth] Contiguous
                   else empty_resized junk (scalar_type input)
                          [nbatch, nInputPlane, nat outputHeight, nat outputWidth] memory_format)
            in avg_pool2d_kernel_impl nm sum_junk output input
                 kW kH dW dH padW padH count_include_pad divisor_override)))"

definition avg_pool2d_out_cpu ::
  "('a::{zero,plus}, 'f::{zero,plus}) numerics \<Rightarrow> (nat \<Rightarrow> 'a) \<Rightarrow> (nat \<Rightarrow> 'f) \<Rightarrow> 'a tensor \<Rightarrow>
   int list \<Rightarrow> int list \<Rightarrow> int list \<Rightarrow> bool \<Rightarrow> bool \<Rightarrow> int option \<Rightarrow> error + 'a tensor" where
  "avg_pool2d_out_cpu nm junk sum_junk input kernel_size stride padding
     ceil_mode count_include_pad divisor_override =
     check (length kernel_size = 1 \<or> length kernel_size = 2) InvalidArgument
     (let kH = kernel_size ! 0;
          kW = (if length kernel_size = 1 then kH else kernel_size ! 1)
      in
     check (stride = [] \<or> length stride = 1 \<or> length stride = 2) InvalidArgument
     (let dH = (if stride = [] then kH else stride ! 0);
          dW = (if stride = [] then kW else if length stride = 1 then dH else stride ! 1)
      in
     check (length padding = 1 \<or> length padding = 2) InvalidArgument
     (let padH = padding ! 0;
          padW = (if length padding = 1 then padH else padding ! 1)
      in
     check (divisor_override = None \<or> the divisor_override \<noteq> 0) InvalidArgument
     (avg_pool2d_out_cpu_sized nm junk sum_junk input kH kW dH dW padH padW
        ceil_mode count_include_pad divisor_override))))"

definition zeros :: "ScalarType \<Rightarrow> nat list \<Rightarrow> MemoryFormat \<Rightarrow> ('a::zero) tensor" where
  "zeros st sz fmt =
     \<lparr>sizes = sz, memory_format = fmt, scalar_type = st, data = replicate (prod_list sz) 0\<rparr>"

definition avg_pool2d_backward_out_cpu_sized ::
  "('a::{zero,plus}, 'f) numerics \<Rightarrow> 'a tensor \<Rightarrow> 'a tensor \<Rightarrow>
   int \<Rightarrow> int \<Rightarrow> int \<Rightarrow> int \<Rightarrow> int \<Rightarrow> int \<Rightarrow> bool \<Rightarrow> bool \<Rightarrow> int option \<Rightarrow> error + 'a tensor" where
  "avg_pool2d_backward_out_cpu_sized nm gradOutput input kH kW dH dW padH padW
     ceil_mode count_include_pad divisor_override =
     check (3 \<le> ndimension input) IndexError
     (let nbatch = (if ndimension input = 4 then size_at input (- 4) else 1);
          nInputPlane = size_at input (- 3);
          inputHeight = int (size_at input (- 2));
          inputWidth = int (size_at input (- 1))
      in
     bind (pooling_output_shape inputWidth kW padW dW 1 ceil_mode) (\<lambda>outputWidth.
     bind (pooling_output_shape inputHeight kH padH dH 1 ceil_mode) (\<lambda>outputHeight.
     let memory_format = suggest_memory_format input
     in case avg_pool2d_backward_shape_check input gradOutput (int nbatch)
               kH kW dH dW padH padW (int nInputPlane) inputHeight inputWidth
               outputHeight outputWidth memory_format of
          Some e \<Rightarrow> Inl e
        | None \<Rightarrow>
            let gradInput = zeros (scalar_type input) (sizes input) memory_format
            in check (scalar_type input = scalar_type gradOutput) ShapeMismatch
                 (avg_pool2d_backward_kernel_impl nm gradInput gradOutput
                    kW kH dW dH padW padH count_include_pad divisor_override))))"

definition avg_pool2d_backward_out_cpu ::
  "('a::{zero,plus}, 'f) numerics \<Rightarrow> 'a tensor \<Rightarrow> 'a tensor \<Rightarrow>
   int list \<Rightarrow> int list \<Rightarrow> int list \<Rightarrow> bool \<Rightarrow> bool \<Rightarrow> int option \<Rightarrow> error + 'a tensor" where
  "avg_pool2d_backward_out_cpu nm gradOutput input kernel_size stride padding
     ceil_mode count_include_pad divisor_override =
     check (length kernel_size = 1 \<or> length kernel_size = 2) InvalidArgument
     (bind (safe_downcast (kernel_size ! 0)) (\<lambda>kH.
      bind (if length kernel_size = 1 then Inr kH else safe_downcast (kernel_size ! 1)) (\<lambda>kW.
     check (stride = [] \<or> length stride = 1 \<or> length stride = 2) InvalidArgument
     (bind (if stride = [] then Inr kH else safe_downcast (stride ! 0)) (\<lambda>dH.
      bind (if stride = [] then Inr kW
            else if length stride = 1 then Inr dH
            else safe_downcast (stride ! 1)) (\<lambda>dW.
     check (length padding = 1 \<or> length padding = 2) InvalidArgument
     (bind (safe_downcast (padding ! 0)) (\<lambda>padH.
      bind (if length padding = 1 then Inr padH else safe_downcast (padding ! 1)) (\<lambda>padW.
     check (divisor_override = None \<or> the divisor_override \<noteq> 0) InvalidArgument
     (avg_pool2d_backward_out_cpu_sized nm gradOutput input kH kW dH dW padH padW
        ceil_mode count_include_pad divisor_override))))))))))"

subsection \<open>What a forward kernel stores at one output position\<close>

text \<open>
  The value the packed forward kernel leaves at the output position \<open>(c, oh, ow)\<close>:
  zero when the clamped window is empty, otherwise zero plus the narrowed
  quotient of the sum over the window, added up row by row in the accumulation
  type.  \<open>avg_pool_traps\<close> says that the division at the position traps.
\<close>

definition avg_pool_value ::
  "('a::{zero,plus} \<Rightarrow> 'acc::{zero,plus}) \<Rightarrow> ('acc \<Rightarrow> 'a) \<Rightarrow> ('acc \<Rightarrow> int \<Rightarrow> 'acc) \<Rightarrow>
   'a list \<Rightarrow> int \<Rightarrow> int \<Rightarrow> int \<Rightarrow> int \<Rightarrow> int \<Rightarrow> int \<Rightarrow> int \<Rightarrow> int \<Rightarrow> bool \<Rightarrow> int option \<Rightarrow>
   nat \<Rightarrow> nat \<Rightarrow> nat \<Rightarrow> 'a" where
  "avg_pool_value widen narrow acc_div input_data input_height input_width
     kW kH dW dH padW padH count_include_pad divisor_override c oh ow =
     (let win = pool_window (int oh) (int ow) kW kH dW dH padW padH input_height input_width
      in case win of (ih0, iw0, ih1, iw1, pool_size) \<Rightarrow>
           if ih0 \<ge> ih1 \<or> iw0 \<ge> iw1 then 0
           else 0 + narrow (acc_div
                  (fold (\<lambda>ih sum.
                     fold (\<lambda>iw sum.
                       sum + widen (input_data ! nat (int c * input_height * input_width +
                                                      ih * input_width + iw)))
                     [iw0..iw1 - 1] sum)
                   [ih0..ih1 - 1] 0)
                  (pool_divide_factor divisor_override count_include_pad win)))"

definition window_empty :: "int \<times> int \<times> int \<times> int \<times> int \<Rightarrow> bool" where
  "window_empty win = (case win of (ih0, iw0, ih1, iw1, pool_size) \<Rightarrow> ih0 \<ge> ih1 \<or> iw0 \<ge> iw1)"

definition avg_pool_traps ::
  "bool \<Rightarrow> int \<Rightarrow> int \<Rightarrow> int \<Rightarrow> int \<Rightarrow> int \<Rightarrow> int \<Rightarrow> int \<Rightarrow> int \<Rightarrow> bool \<Rightarrow> int option \<Rightarrow>
   nat \<Rightarrow> nat \<Rightarrow> bool" where
  "avg_pool_traps traps input_height input_width kW kH dW dH padW padH
     count_include_pad divisor_override oh ow =
     (let win = pool_window (int oh) (int ow) kW kH dW dH padW padH input_height input_width
      in traps \<and> \<not> window_empty win \<and>
         pool_divide_factor divisor_override count_include_pad win = 0)"

text \<open>An input position \<open>(ih, iw)\<close> lies in the clamped window.\<close>

definition window_covers :: "int \<times> int \<times> int \<times> int \<times> int \<Rightarrow> int \<Rightarrow> int \<Rightarrow> bool" where
  "window_covers win ih iw =
     (case win of (ih0, iw0, ih1, iw1, pool_size) \<Rightarrow>
        ih0 \<le> ih \<and> ih < ih1 \<and> iw0 \<le> iw \<and> iw < iw1)"

subsection \<open>What the backward computation leaves at one input position\<close>

text \<open>
  The output positions whose clamped window contains the input position
  \<open>(ih, iw)\<close>, in the order in which the kernels visit them, and the value a
  backward kernel that starts from zero accumulates there: one after the other,
  the gradient at each such output position (\<open>grad_at\<close>), divided by the divisor
  of its window, is added.
\<close>

definition covering_windows ::
  "int \<Rightarrow> int \<Rightarrow> int \<Rightarrow> int \<Rightarrow> int \<Rightarrow> int \<Rightarrow> int \<Rightarrow> int \<Rightarrow> int \<Rightarrow> int \<Rightarrow> int \<Rightarrow> int \<Rightarrow>
   (int \<times> int) list" where
  "covering_windows output_height output_width kW kH dW dH padW padH input_height input_width
     ih iw =
     concat (map (\<lambda>oh.
       concat (map (\<lambda>ow.
         if window_covers (pool_window oh ow kW kH dW dH padW padH input_height input_width) ih iw
         then [(oh, ow)] else [])
         [0..output_width - 1]))
       [0..output_height - 1])"

definition avg_pool_backward_value ::
  "('a::{zero,plus} \<Rightarrow> int \<Rightarrow> 'a) \<Rightarrow> (int \<Rightarrow> int \<Rightarrow> 'a) \<Rightarrow> int \<Rightarrow> int \<Rightarrow>
   int \<Rightarrow> int \<Rightarrow> int \<Rightarrow> int \<Rightarrow> int \<Rightarrow> int \<Rightarrow> int \<Rightarrow> int \<Rightarrow> bool \<Rightarrow> int option \<Rightarrow>
   int \<Rightarrow> int \<Rightarrow> 'a" where
  "avg_pool_backward_value sdiv grad_at output_height output_width kW kH dW dH padW padH
     input_height input_width count_include_pad divisor_override ih iw =
     foldl (\<lambda>acc (oh, ow).
              acc + sdiv (grad_at oh ow)
                      (pool_divide_factor divisor_override count_include_pad
                         (pool_window oh ow kW kH dW dH padW padH input_height input_width)))
       0
       (covering_windows output_height output_width kW kH dW dH padW padH
          input_height input_width ih iw)"

section \<open>Fusion of convolution and elu\<close>

text \<open>
  A 64-bit float: a finite value, an infinity with its sign, or not-a-number.
  \<open>double_eq\<close> is the comparison \<^verbatim>\<open>==\<close>, under which not-a-number equals nothing.
\<close>

datatype double = Finite rat | Infinity bool | NaN

fun double_eq :: "double \<Rightarrow> double \<Rightarrow> bool" where
  "double_eq (Finite a) (Finite b) = (a = b)"
| "double_eq (Infinity a) (Infinity b) = (a = b)"
| "double_eq _ _ = False"

text \<open>
  Modelled from the spec: the constant a graph value may hold (\<^verbatim>\<open>c10::IValue\<close> of the
  host library, section 6), with its kinds double and int told apart from all
  the others; \<^verbatim>\<open>toInt()\<close> of a value that is not an int is an unexpected-state
  error (section 7).
\<close>

datatype IValue = DoubleValue double | IntValue int | BoolValue bool | NoneValue | OtherValue

definition isDouble :: "IValue \<Rightarrow> bool" where
  "isDouble v = (case v of DoubleValue d \<Rightarrow> True | _ \<Rightarrow> False)"

definition toDouble :: "IValue \<Rightarrow> error + double" where
  "toDouble v = (case v of DoubleValue d \<Rightarrow> Inr d | _ \<Rightarrow> Inl UnexpectedState)"

definition toInt :: "IValue \<Rightarrow> error + int" where
  "toInt v = (case v of IntValue i \<Rightarrow> Inr i | _ \<Rightarrow> Inl UnexpectedState)"

text \<open>
  Modelled from the spec: a match binds the values of the pattern to values of
  the graph (\<open>values_map\<close>); \<open>vmap\<close> names the values of the pattern; \<open>constant_of\<close>
  gives the constant a graph value holds, if it is one.  \<^verbatim>\<open>getIValue\<close> of
  \<^verbatim>\<open>graph_rewrite_utils.h\<close>, which is not among the sources, looks a name up through
  the two maps and returns the constant found, if any (section 7: a missing
  expected constant in the matched subgraph).
\<close>

record ('pv, 'gv) Match =
  values_map :: "'pv \<rightharpoonup> 'gv"
  constant_of :: "'gv \<rightharpoonup> IValue"

definition getIValue :: "string \<Rightarrow> ('pv, 'gv) Match \<Rightarrow> (string \<rightharpoonup> 'pv) \<Rightarrow> IValue option" where
  "getIValue name' match vmap =
     (case vmap name' of
        None \<Rightarrow> None
      | Some pv \<Rightarrow> (case values_map match pv of
                     None \<Rightarrow> None
                   | Some gv \<Rightarrow> constant_of match gv))"

text \<open>
  The guard of the fusion of convolution and elu.  \<^verbatim>\<open>.value()\<close> of an empty optional
  and \<^verbatim>\<open>toInt()\<close> of a constant that is neither a double nor an int fail.
\<close>

definition filter_conv2d_elu :: "('pv, 'gv) Match \<Rightarrow> (string \<rightharpoonup> 'pv) \<Rightarrow> error + bool" where
  "filter_conv2d_elu match vmap =
     (case getIValue ''input_scale'' match vmap of
        None \<Rightarrow> Inl UnexpectedState
      | Some input_scale_value \<Rightarrow>
          if isDouble input_scale_value
          then (case toDouble input_scale_value of
                  Inl e \<Rightarrow> Inl e
                | Inr d \<Rightarrow> Inr (double_eq d (Finite 1)))
          else (case toInt input_scale_value of
                  Inl e \<Rightarrow> Inl e
                | Inr i \<Rightarrow> Inr (i = 1)))"

text \<open>
  Modelled from the spec: what \<^verbatim>\<open>runOnGraph(graph, filter)\<close> of the subgraph
  rewriter, which is not among the sources, does with one match (section 4.5:
  match, guard-check, structural-replace): the guard is evaluated on the bindings
  of the match; when it holds the matched subgraph is replaced by the fused one
  (\<open>replace\<close>), otherwise the match is rejected and the graph is left untouched.
\<close>

definition rewrite_match ::
  "(('pv, 'gv) Match \<Rightarrow> (string \<rightharpoonup> 'pv) \<Rightarrow> error + bool) \<Rightarrow>
   (('pv, 'gv) Match \<Rightarrow> 'g \<Rightarrow> 'g) \<Rightarrow> ('pv, 'gv) Match \<Rightarrow> (string \<rightharpoonup> 'pv) \<Rightarrow> 'g \<Rightarrow> error + 'g" where
  "rewrite_match guard replace match vmap graph =
     (case guard match vmap of
        Inl e \<Rightarrow> Inl e
      | Inr accepted \<Rightarrow> Inr (if accepted then replace match graph else graph))"

text \<open>The identity value of the scale of the input of elu.\<close>

definition identity_scale :: "IValue \<Rightarrow> bool" where
  "identity_scale v = (v = DoubleValue (Finite 1) \<or> v = IntValue 1)"

section \<open>Example tensors\<close>

definition ex_packed :: "nat list \<Rightarrow> nat list \<Rightarrow> nat tensor" where
  "ex_packed sz d = \<lparr>sizes = sz, memory_format = Contiguous, scalar_type = kFloat, data = d\<rparr>"

definition ex_channels_last :: "nat list \<Rightarrow> nat list \<Rightarrow> nat tensor" where
  "ex_channels_last sz d = \<lparr>sizes = sz, memory_format = ChannelsLast, scalar_type = kFloat, data = d\<rparr>"


text \<open>
  Exact arithmetic on rationals.  It stands for the arithmetic of a float kind
  only in examples whose sums and quotients are representable exactly (small
  integers, divided by a power of two or by one of their divisors); a float
  kernel rounds everything else.
\<close>

definition exact_numerics :: "(rat, rat) numerics" where
  "exact_numerics =
     \<lparr>to_float = (\<lambda>x. x), from_float = (\<lambda>x. x),
      float_div = (\<lambda>x d. x / of_int d), scalar_div = (\<lambda>x d. x / of_int d)\<rparr>"

definition ex_tensor :: "MemoryFormat \<Rightarrow> ScalarType \<Rightarrow> nat list \<Rightarrow> 'a list \<Rightarrow> 'a tensor" where
  "ex_tensor fmt st sz d = \<lparr>sizes = sz, memory_format = fmt, scalar_type = st, data = d\<rparr>"

text \<open>Some content for memory that was never written.\<close>

definition stale :: "nat \<Rightarrow> rat" where
  "stale k = 42"

text \<open>
  Arithmetic that computes nothing: an element is the expression that produced
  it, so an example shows which operations a kernel applies and in which order,
  whatever the element kind rounds them to.
\<close>

datatype sym = Zero | One | Plus sym sym | Quot sym int

instantiation sym :: "{zero,plus}"
begin

definition zero_sym :: sym where
  "zero_sym = Zero"

definition plus_sym :: "sym \<Rightarrow> sym \<Rightarrow> sym" where
  "plus_sym a b = Plus a b"

instance ..

end

definition sym_numerics :: "(sym, sym) numerics" where
  "sym_numerics =
     \<lparr>to_float = (\<lambda>x. x), from_float = (\<lambda>x. x), float_div = Quot, scalar_div = Quot\<rparr>"


section \<open>Properties of pixel shuffle\<close>

subsection \<open>Sizes\<close>

lemma length3E: "length ys = Suc (Suc (Suc 0)) \<Longrightarrow> \<exists>c h w. ys = [c, h, w]"
  by (auto simp: length_Suc_conv)

lemma split_last3:
  assumes "3 \<le> length (xs::nat list)"
  obtains bs c h w where "xs = bs @ [c, h, w]"
proof -
  have "length (drop (length xs - 3) xs) = Suc (Suc (Suc 0))" using assms by simp
  then have "\<exists>c h w. drop (length xs - 3) xs = [c, h, w]"
    by (rule length3E)
  then obtain c h w where "drop (length xs - 3) xs = [c, h, w]" by blast
  then have "xs = take (length xs - 3) xs @ [c, h, w]"
    by (metis append_take_drop_id)
  then show ?thesis using that by blast
qed

lemma size_at_last3:
  assumes "sizes t = bs @ [c, h, w]"
  shows "size_at t (- 3) = c" "size_at t (- 2) = h" "size_at t (- 1) = w"
    and "take (length (sizes t) - 3) (sizes t) = bs"
proof -
  have n: "nat (- 3 + int (length bs + 3)) = length bs"
    "nat (- 2 + int (length bs + 3)) = length bs + 1"
    "nat (- 1 + int (length bs + 3)) = length bs + 2"
    by simp_all
  show "size_at t (- 3) = c" "size_at t (- 2) = h" "size_at t (- 1) = w"
    unfolding size_at_def assms using n by (simp_all add: nth_append)
  show "take (length (sizes t) - 3) (sizes t) = bs" using assms by simp
qed

lemma unshuffle_of_shuffle_sizes:
  assumes "3 \<le> ndimension x" "0 < S" "size_at x (- 3) mod (S * S) = 0"
    and "sizes g = pixel_shuffle_output_sizes x S"
  shows "pixel_unshuffle_output_sizes g S = sizes x"
proof -
  obtain bs c h w where x: "sizes x = bs @ [c, h, w]"
    using assms(1) split_last3 unfolding ndimension_def by blast
  have g: "sizes g = bs @ [c div S div S, h * S, w * S]"
    by (simp add: assms(4) pixel_shuffle_output_sizes_def size_at_last3[OF x])
  have "c mod (S * S) = 0" using assms(3) by (simp add: size_at_last3[OF x])
  then have "c div S div S * S * S = c"
    by (simp add: div_mult2_eq[symmetric] mult.assoc mod_eq_0_iff_dvd)
  then show ?thesis
    using assms(2) by (simp add: pixel_unshuffle_output_sizes_def size_at_last3[OF g] x)
qed

lemma shuffle_of_unshuffle_sizes:
  assumes "3 \<le> ndimension x" "0 < S" "size_at x (- 2) mod S = 0" "size_at x (- 1) mod S = 0"
    and "sizes g = pixel_unshuffle_output_sizes x S"
  shows "pixel_shuffle_output_sizes g S = sizes x"
proof -
  obtain bs c h w where x: "sizes x = bs @ [c, h, w]"
    using assms(1) split_last3 unfolding ndimension_def by blast
  have g: "sizes g = bs @ [c * S * S, h div S, w div S]"
    by (simp add: assms(5) pixel_unshuffle_output_sizes_def size_at_last3[OF x])
  have "h mod S = 0" "w mod S = 0" using assms(3,4) by (simp_all add: size_at_last3[OF x])
  then have "h div S * S = h" "w div S * S = w"
    by (simp_all add: mod_eq_0_iff_dvd)
  then show ?thesis
    using assms(2) by (simp add: pixel_shuffle_output_sizes_def size_at_last3[OF g] x)
qed

subsection \<open>Backward of one operation is forward of the other\<close>

text \<open>
  Claim C3.  The backward kernel of shuffle is the forward kernel of unshuffle, and
  the backward kernel of unshuffle is the forward kernel of shuffle: for every
  output buffer, gradient tensor and factor the dispatchers run the same kernel
  bodies, in the packed and in the channels-last layout.  On whole tensors: when
  the checks of \<open>pixel_shuffle\<close> passed on \<open>x\<close> and the context was saved, the backward
  computation on a gradient \<open>g\<close> of the shape of the forward output is the
  unshuffle forward computation on \<open>g\<close>; and the same with the two roles exchanged.
\<close>

theorem backward_is_inverse_forward:
  "pixel_shuffle_backward_kernel gi g S = pixel_unshuffle_kernel gi g S \<and>
   pixel_unshuffle_backward_kernel gi g S = pixel_shuffle_kernel gi g S \<and>
   (3 \<le> ndimension x \<and> 0 < F \<and> int (size_at x (- 3)) mod (F * F) = 0 \<and>
    sizes g = pixel_shuffle_output_sizes x (nat F) \<longrightarrow>
      PixelShuffleOp_backward junk (fst (PixelShuffleOp_forward junk_fwd x F)) g =
      pixel_unshuffle_cpu junk g (nat F)) \<and>
   (3 \<le> ndimension x \<and> 0 < F \<and> int (size_at x (- 2)) mod F = 0 \<and>
    int (size_at x (- 1)) mod F = 0 \<and>
    sizes g = pixel_unshuffle_output_sizes x (nat F) \<longrightarrow>
      PixelUnshuffleOp_backward junk (fst (PixelUnshuffleOp_forward junk_fwd x F)) g =
      pixel_shuffle_cpu junk g (nat F))"
proof (intro conjI impI)
  show "pixel_shuffle_backward_kernel gi g S = pixel_unshuffle_kernel gi g S"
    by (simp add: pixel_shuffle_backward_kernel_def pixel_unshuffle_kernel_def)
  show "pixel_unshuffle_backward_kernel gi g S = pixel_shuffle_kernel gi g S"
    by (simp add: pixel_unshuffle_backward_kernel_def pixel_shuffle_kernel_def)
next
  assume a: "3 \<le> ndimension x \<and> 0 < F \<and> int (size_at x (- 3)) mod (F * F) = 0 \<and>
    sizes g = pixel_shuffle_output_sizes x (nat F)"
  then have F: "0 < nat F" by simp
  from a have "int (size_at x (- 3)) mod (int (nat F) * int (nat F)) = 0" by simp
  then have m: "size_at x (- 3) mod (nat F * nat F) = 0"
    by (metis of_nat_mult of_nat_mod of_nat_eq_0_iff)
  have sz: "pixel_unshuffle_output_sizes g (nat F) = sizes x"
    using a unshuffle_of_shuffle_sizes[OF _ F m] by blast
  have rg: "3 \<le> ndimension g"
    using a by (simp add: ndimension_def pixel_shuffle_output_sizes_def)
  show "PixelShuffleOp_backward junk (fst (PixelShuffleOp_forward junk_fwd x F)) g =
      pixel_unshuffle_cpu junk g (nat F)"
    using rg F
    by (simp add: PixelShuffleOp_backward_def PixelShuffleOp_forward_def
        pixel_shuffle_backward_cpu_def pixel_unshuffle_cpu_def sz
        pixel_shuffle_backward_kernel_def pixel_unshuffle_kernel_def Let_def)
next
  assume a: "3 \<le> ndimension x \<and> 0 < F \<and> int (size_at x (- 2)) mod F = 0 \<and>
    int (size_at x (- 1)) mod F = 0 \<and>
    sizes g = pixel_unshuffle_output_sizes x (nat F)"
  then have F: "0 < nat F" by simp
  from a have "int (size_at x (- 2)) mod int (nat F) = 0" "int (size_at x (- 1)) mod int (nat F) = 0" by simp_all
  then have m: "size_at x (- 2) mod nat F = 0" "size_at x (- 1) mod nat F = 0"
    by (metis of_nat_mod of_nat_eq_0_iff)+
  have sz: "pixel_shuffle_output_sizes g (nat F) = sizes x"
    using a shuffle_of_unshuffle_sizes[OF _ F m] by blast
  have rg: "3 \<le> ndimension g"
    using a by (simp add: ndimension_def pixel_unshuffle_output_sizes_def)
  show "PixelUnshuffleOp_backward junk (fst (PixelUnshuffleOp_forward junk_fwd x F)) g =
      pixel_shuffle_cpu junk g (nat F)"
    using rg F
    by (simp add: PixelUnshuffleOp_backward_def PixelUnshuffleOp_forward_def
        pixel_unshuffle_backward_cpu_def pixel_shuffle_cpu_def sz
        pixel_unshuffle_backward_kernel_def pixel_shuffle_kernel_def Let_def)
qed


theorem backward_is_inverse_forward_witness:
  "PixelShuffleOp_backward (\<lambda>_. 0)
     (fst (PixelShuffleOp_forward (\<lambda>_. 0) (ex_packed [1, 4, 1, 2] [0, 1, 2, 3, 4, 5, 6, 7]) 2))
     (ex_packed [1, 1, 2, 4] [10, 11, 12, 13, 14, 15, 16, 17]) =
   Inr (ex_packed [1, 4, 1, 2] [10, 12, 11, 13, 14, 16, 15, 17]) \<and>
   PixelUnshuffleOp_backward (\<lambda>_. 0)
     (fst (PixelUnshuffleOp_forward (\<lambda>_. 0) (ex_channels_last [1, 1, 2, 4] [0, 1, 2, 3, 4, 5, 6, 7]) 2))
     (ex_channels_last [1, 4, 1, 2] [10, 11, 12, 13, 14, 15, 16, 17]) =
   Inr (ex_channels_last [1, 1, 2, 4] [10, 11, 14, 15, 12, 13, 16, 17])"
proof -
  let ?x = "ex_packed [1, 4, 1, 2] [0, 1, 2, 3, 4, 5, 6, 7]"
  let ?g = "ex_packed [1, 1, 2, 4] [10, 11, 12, 13, 14, 15, 16, 17]"
  let ?x' = "ex_channels_last [1, 1, 2, 4] [0, 1, 2, 3, 4, 5, 6, 7]"
  let ?g' = "ex_channels_last [1, 4, 1, 2] [10, 11, 12, 13, 14, 15, 16, 17]"
  have h1: "3 \<le> ndimension ?x \<and> 0 < (2::int) \<and> int (size_at ?x (- 3)) mod (2 * 2) = 0 \<and>
    sizes ?g = pixel_shuffle_output_sizes ?x (nat 2)"
    by (simp add: ex_packed_def ndimension_def size_at_def pixel_shuffle_output_sizes_def)
  have h2: "3 \<le> ndimension ?x' \<and> 0 < (2::int) \<and> int (size_at ?x' (- 2)) mod 2 = 0 \<and>
    int (size_at ?x' (- 1)) mod 2 = 0 \<and>
    sizes ?g' = pixel_unshuffle_output_sizes ?x' (nat 2)"
    by (simp add: ex_channels_last_def ndimension_def size_at_def pixel_unshuffle_output_sizes_def)
  have e1: "pixel_unshuffle_cpu (\<lambda>_. 0) ?g (nat 2) = Inr (ex_packed [1, 4, 1, 2] [10, 12, 11, 13, 14, 16, 15, 17])"
    by code_simp
  have e2: "pixel_shuffle_cpu (\<lambda>_. 0) ?g' (nat 2) = Inr (ex_channels_last [1, 1, 2, 4] [10, 11, 14, 15, 12, 13, 16, 17])"
    by code_simp
  from backward_is_inverse_forward[where x = ?x and F = 2 and g = ?g and junk = "\<lambda>_. 0" and junk_fwd = "\<lambda>_. 0"] h1 e1
  have "PixelShuffleOp_backward (\<lambda>_. 0) (fst (PixelShuffleOp_forward (\<lambda>_. 0) ?x 2)) ?g =
    Inr (ex_packed [1, 4, 1, 2] [10, 12, 11, 13, 14, 16, 15, 17])"
    by metis
  moreover
  from backward_is_inverse_forward[where x = ?x' and F = 2 and g = ?g' and junk = "\<lambda>_. 0" and junk_fwd = "\<lambda>_. 0"] h2 e2
  have "PixelUnshuffleOp_backward (\<lambda>_. 0) (fst (PixelUnshuffleOp_forward (\<lambda>_. 0) ?x' 2)) ?g' =
    Inr (ex_channels_last [1, 1, 2, 4] [10, 11, 14, 15, 12, 13, 16, 17])"
    by metis
  ultimately show ?thesis by blast
qed


section \<open>Properties of average pooling\<close>

subsection \<open>The index enumerator and the loops\<close>

lemma length_data_index_init [simp]: "length (snd (data_index_init i exts)) = length exts"
  by (induction exts) (auto simp: case_prod_beta Let_def)

lemma succ_div_mod:
  fixes a X :: nat
  assumes "0 < X"
  shows "Suc a mod X = (if a mod X + 1 = X then 0 else a mod X + 1)"
    and "(Suc a mod X = 0) = (Suc a div X = Suc (a div X))"
    and "Suc a mod X \<noteq> 0 \<Longrightarrow> Suc a div X = a div X"
proof -
  show m: "Suc a mod X = (if a mod X + 1 = X then 0 else a mod X + 1)"
    using assms by (simp add: mod_Suc)
  show "(Suc a mod X = 0) = (Suc a div X = Suc (a div X))"
    using assms by (auto simp: div_Suc mod_Suc split: if_splits)
  show "Suc a mod X \<noteq> 0 \<Longrightarrow> Suc a div X = a div X"
    using assms by (auto simp: div_Suc mod_Suc split: if_splits)
qed

lemma data_index_step_init:
  assumes "\<forall>X\<in>set exts. 0 < X"
  shows "data_index_step (snd (data_index_init i exts)) exts =
           (fst (data_index_init (Suc i) exts) = Suc (fst (data_index_init i exts)),
            snd (data_index_init (Suc i) exts)) \<and>
         (fst (data_index_init (Suc i) exts) = fst (data_index_init i exts) \<or>
          fst (data_index_init (Suc i) exts) = Suc (fst (data_index_init i exts)))"
  using assms
proof (induction exts)
  case Nil
  then show ?case by simp
next
  case (Cons X Xs)
  obtain q ds where a: "data_index_init i Xs = (q, ds)" by (cases "data_index_init i Xs")
  obtain q' ds' where b: "data_index_init (Suc i) Xs = (q', ds')" by (cases "data_index_init (Suc i) Xs")
  from Cons have X: "0 < X" and ih: "data_index_step ds Xs = (q' = Suc q, ds')" "q' = q \<or> q' = Suc q"
    by (simp_all add: a b)
  show ?case
  proof (cases "q' = q")
    case True
    then show ?thesis using ih by (simp add: a b)
  next
    case False
    then have q': "q' = Suc q" using ih by blast
    show ?thesis
      using succ_div_mod[OF X, of q] by (auto simp add: a b ih q' Let_def)
  qed
qed

lemma snd_data_index_step_init:
  assumes "\<forall>X\<in>set exts. 0 < X"
  shows "snd (data_index_step (snd (data_index_init i exts)) exts) = snd (data_index_init (Suc i) exts)"
  using data_index_step_init[OF assms, of i] by simp

lemma index_loop_for_each:
  assumes "\<forall>X\<in>set exts. 0 < X"
  shows "index_loop body exts b e (snd (data_index_init b exts)) s =
         for_each [b..<e] (\<lambda>i. body i (snd (data_index_init i exts))) s"
proof (induction "e - b" arbitrary: b s)
  case 0
  then show ?case by (simp add: index_loop.simps)
next
  case (Suc n)
  then have lt: "b < e" and n: "n = e - Suc b" by simp_all
  have u: "[b..<e] = b # [Suc b..<e]" using lt by (simp add: upt_conv_Cons)
  show ?case
    apply (subst index_loop.simps)
    apply (simp add: lt u snd_data_index_step_init[OF assms] split: sum.splits)
    using Suc(1)[OF n] by simp
qed

text \<open>A loop whose body writes position i with a value that depends on i only.\<close>

lemma for_each_fill:
  assumes "\<And>i s. b \<le> i \<Longrightarrow> i < e \<Longrightarrow> length s = n \<Longrightarrow> body i s = Inr (s[i := v i])"
    and "e \<le> n" "length s = n"
  shows "for_each [b..<e] body s =
         Inr (map (\<lambda>k. if b \<le> k \<and> k < e then v k else s ! k) [0..<n])"
  using assms
proof (induction "e - b" arbitrary: b s)
  case 0
  then have e1: "[b..<e] = []" by simp
  have e2: "map (\<lambda>k. if b \<le> k \<and> k < e then v k else s ! k) [0..<n] = s"
    using 0 by (intro nth_equalityI) auto
  show ?case unfolding e1 e2 by simp
next
  case (Suc m)
  then have lt: "b < e" and m: "m = e - Suc b" by simp_all
  have u: "[b..<e] = b # [Suc b..<e]" using lt by (simp add: upt_conv_Cons)
  have st: "body b s = Inr (s[b := v b])" using Suc.prems(1)[of b s] lt Suc.prems(3) by simp
  have "for_each [Suc b..<e] body (s[b := v b]) =
        Inr (map (\<lambda>k. if Suc b \<le> k \<and> k < e then v k else (s[b := v b]) ! k) [0..<n])"
    using Suc.prems by (intro Suc.hyps(1)[OF m]) auto
  moreover have "map (\<lambda>k. if Suc b \<le> k \<and> k < e then v k else (s[b := v b]) ! k) [0..<n] =
        map (\<lambda>k. if b \<le> k \<and> k < e then v k else s ! k) [0..<n]"
    using lt Suc.prems(2,3) by (intro nth_equalityI) (auto simp: nth_list_update)
  ultimately show ?case by (simp add: u st)
qed


subsection \<open>The packed forward kernel\<close>

lemma data_index_init3:
  "snd (data_index_init i [A, B, C]) = [(i div C div B) mod A, (i div C) mod B, i mod C]"
  by (simp add: Let_def)

lemma cpu_avg_pool_body_eq:
  assumes "i < length out"
  shows "cpu_avg_pool_body widen narrow acc_div traps inp IH IW kW kH dW dH padW padH cip dov
           i [c, oh, ow] out =
         (if avg_pool_traps traps IH IW kW kH dW dH padW padH cip dov oh ow then Inl DivisionByZero
          else Inr (out[i := avg_pool_value widen narrow acc_div inp IH IW kW kH dW dH padW padH cip dov c oh ow]))"
proof -
  obtain ih0 iw0 ih1 iw1 ps where w: "pool_window (int oh) (int ow) kW kH dW dH padW padH IH IW = (ih0, iw0, ih1, iw1, ps)"
    by (metis prod_cases5)
  show ?thesis
    using assms
    by (simp add: cpu_avg_pool_body_def avg_pool_traps_def avg_pool_value_def window_empty_def w Let_def)
qed


lemma contiguous_same [simp]: "memory_format t = fmt \<Longrightarrow> contiguous t fmt = t"
  by (simp add: contiguous_def)

lemma for_each_fill_all:
  assumes "\<And>i s. i < n \<Longrightarrow> length s = n \<Longrightarrow> body i s = Inr (s[i := v i])"
    and "length s = n"
  shows "for_each [0..<n] body s = Inr (map v [0..<n])"
proof -
  have "for_each [0..<n] body s = Inr (map (\<lambda>k. if 0 \<le> k \<and> k < n then v k else s ! k) [0..<n])"
    using assms by (intro for_each_fill) simp_all
  moreover have "map (\<lambda>k. if 0 \<le> k \<and> k < n then v k else s ! k) [0..<n] = map v [0..<n]"
    by (intro map_cong) simp_all
  ultimately show ?thesis by (simp only:)
qed

lemma cpu_avg_pool_closed:
  fixes output' input' :: "('a::{zero,plus}) tensor"
  defines "channels \<equiv> (if ndimension input' = 3 then size_at input' 0
                        else size_at input' 0 * size_at input' 1)"
  defines "OH \<equiv> size_at output' (- 2)" and "OW \<equiv> size_at output' (- 1)"
  defines "IH \<equiv> int (size_at input' (- 2))" and "IW \<equiv> int (size_at input' (- 1))"
  assumes fmt: "memory_format output' = Contiguous" "memory_format input' = Contiguous"
    and len: "length (data output') = numel output'"
    and ext: "numel output' = channels * OH * OW"
    and notrap: "\<And>oh ow. oh < OH \<Longrightarrow> ow < OW \<Longrightarrow>
       \<not> avg_pool_traps traps IH IW kW kH dW dH padW padH cip dov oh ow"
  shows "cpu_avg_pool widen narrow acc_div traps output' input' kW kH dW dH padW padH cip dov =
         Inr (output'\<lparr>data := map (\<lambda>i. avg_pool_value widen narrow acc_div (data input') IH IW
                                         kW kH dW dH padW padH cip dov
                                         ((i div OW div OH) mod channels) ((i div OW) mod OH) (i mod OW))
                                  [0..<numel output']\<rparr>)"
proof -
  let ?exts = "[channels, OH, OW]"
  let ?n = "numel output'"
  let ?v = "\<lambda>i. avg_pool_value widen narrow acc_div (data input') IH IW
                 kW kH dW dH padW padH cip dov
                 ((i div OW div OH) mod channels) ((i div OW) mod OH) (i mod OW)"
  let ?body = "cpu_avg_pool_body widen narrow acc_div traps (data input') IH IW
                 kW kH dW dH padW padH cip dov"
  have pf: "parallel_for 0 ?n (\<lambda>begin end. index_loop ?body ?exts begin end
             (snd (data_index_init begin ?exts))) (data output') = Inr (map ?v [0..<?n])"
  proof (cases "0 < ?n")
    case False
    then have "data output' = []" "?n = 0" using len by simp_all
    then show ?thesis by (simp add: parallel_for_def)
  next
    case True
    then have "0 < channels * OH * OW" using ext by simp
    then have pos: "0 < channels" "0 < OH" "0 < OW" by simp_all
    then have allpos: "\<forall>X\<in>set ?exts. 0 < X" by simp
    have step: "?body i (snd (data_index_init i ?exts)) s = Inr (s[i := ?v i])"
      if i: "i < ?n" and s: "length s = ?n" for i and s :: "'a list"
    proof -
      have "(i div OW) mod OH < OH" "i mod OW < OW" using pos by simp_all
      then have nt: "\<not> avg_pool_traps traps IH IW kW kH dW dH padW padH cip dov ((i div OW) mod OH) (i mod OW)"
        by (rule notrap)
      have il: "i < length s" using i s by simp
      show ?thesis
        unfolding data_index_init3 cpu_avg_pool_body_eq[OF il] using nt by (simp only: if_False)
    qed
    have "for_each [0..<?n] (\<lambda>i. ?body i (snd (data_index_init i ?exts))) (data output') =
          Inr (map ?v [0..<?n])"
      using step len by (rule for_each_fill_all)
    then have loop: "index_loop ?body ?exts 0 ?n (snd (data_index_init 0 ?exts)) (data output') =
      Inr (map ?v [0..<?n])"
      unfolding index_loop_for_each[OF allpos] .
    show ?thesis
      unfolding parallel_for_def using True loop by (simp only: if_True)
  qed
  show ?thesis
    unfolding cpu_avg_pool_def Let_def contiguous_same[OF fmt(1)] contiguous_same[OF fmt(2)]
    unfolding channels_def[symmetric] OH_def[symmetric] OW_def[symmetric] IH_def[symmetric]
      IW_def[symmetric] pf
    by (simp add: write_back_def fmt)
qed


subsection \<open>A padded window over ones\<close>

lemma upto_unfold: "[i..j] = (if i \<le> j then i # [i + 1..j] else [])"
  by (simp add: upto.simps)

lemma ones_entry:
  assumes "st = kFloat \<or> st = kDouble"
  shows "avg_pool2d_out_cpu nm junk sum_junk
     (ex_tensor Contiguous st [1, 1, 2, 2] [one, one, one, one]) [3] [1] [1] ceil_mode cip None =
     cpu_avg_pool (\<lambda>x. x) (\<lambda>x. x) (scalar_div nm) False
       (empty_resized junk st [1, 1, 2, 2] Contiguous)
       (ex_tensor Contiguous st [1, 1, 2, 2] [one, one, one, one]) 3 3 1 1 1 1 cip None"
  using assms
  by (auto simp add: avg_pool2d_out_cpu_def avg_pool2d_out_cpu_sized_def check_def bind_def pooling_output_shape_def
      pool2d_shape_check_def ex_tensor_def ndimension_def size_at_def suggest_memory_format_def
      avg_pool2d_kernel_impl_def AT_DISPATCH_FLOATING_TYPES_AND2_def Let_def)

text \<open>
  Claim C5.  For a 1 x 1 x 2 x 2 input of ones of a float kind, kernel 3, stride 1,
  padding 1 and no divisor override, the forward entry point returns at every
  output position, so at position (0, 0), zero plus the quotient of the sum of
  the four ones, added up one after the other from zero, by 9 when padding
  counts in the divisor (the window has 9 places, 4 of them in the input) and by
  4 when it does not.  Sum and quotient are those of the element kind, whatever
  they are: in a float kind the first quotient is the float that 4 / 9 rounds to.
  In every arithmetic in which zero plus one is one and that sum divided by 4
  is one, so in the float kinds, the second result is one.
\<close>

theorem padded_ones_average:
  fixes nm :: "('a::{zero,plus}, 'f::{zero,plus}) numerics"
  assumes "st = kFloat \<or> st = kDouble"
  shows
  "avg_pool2d_out_cpu nm junk sum_junk
     (ex_tensor Contiguous st [1, 1, 2, 2] [one, one, one, one]) [3] [1] [1] ceil_mode cip None =
   Inr (ex_tensor Contiguous st [1, 1, 2, 2]
          (replicate 4 (0 + scalar_div nm ((((0 + one) + one) + one) + one) (if cip then 9 else 4)))) \<and>
   (0 + one = one \<and> scalar_div nm ((((0 + one) + one) + one) + one) 4 = one \<longrightarrow>
    avg_pool2d_out_cpu nm junk sum_junk
      (ex_tensor Contiguous st [1, 1, 2, 2] [one, one, one, one]) [3] [1] [1] ceil_mode False None =
    Inr (ex_tensor Contiguous st [1, 1, 2, 2] [one, one, one, one]))"
proof -
  let ?out = "empty_resized junk st [1, 1, 2, 2] Contiguous"
  let ?in = "ex_tensor Contiguous st [1, 1, 2, 2] [one, one, one, one]"
  have k: "cpu_avg_pool (\<lambda>x. x) (\<lambda>x. x) (scalar_div nm) False ?out ?in 3 3 1 1 1 1 cip None =
      Inr (?out\<lparr>data := map (\<lambda>i. avg_pool_value (\<lambda>x. x) (\<lambda>x. x) (scalar_div nm) (data ?in)
             (int (size_at ?in (- 2))) (int (size_at ?in (- 1))) 3 3 1 1 1 1 cip None
             ((i div size_at ?out (- 1) div size_at ?out (- 2)) mod
                (if ndimension ?in = 3 then size_at ?in 0 else size_at ?in 0 * size_at ?in 1))
             ((i div size_at ?out (- 1)) mod size_at ?out (- 2)) (i mod size_at ?out (- 1)))
           [0..<numel ?out]\<rparr>)" for cip
    by (rule cpu_avg_pool_closed)
      (simp_all add: empty_resized_def ex_tensor_def numel_def size_at_def ndimension_def avg_pool_traps_def)
  have u: "[0..<4] = [0, 1, 2, 3::nat]" by (simp add: upt_rec)
  have r4: "replicate 4 v = [v, v, v, v]" for v :: 'a by (simp add: numeral_eq_Suc)
  have g: "avg_pool2d_out_cpu nm junk sum_junk ?in [3] [1] [1] ceil_mode cip None =
   Inr (ex_tensor Contiguous st [1, 1, 2, 2]
          (replicate 4 (0 + scalar_div nm ((((0 + one) + one) + one) + one) (if cip then 9 else 4))))"
    for cip
    unfolding ones_entry[OF assms] k r4
    apply (simp add: empty_resized_def ex_tensor_def numel_def size_at_def ndimension_def u)
    apply (simp add: avg_pool_value_def pool_window_def pool_divide_factor_def Let_def)
    apply (simp add: upto_unfold)
    done
  show ?thesis
  proof (intro conjI impI)
    show "avg_pool2d_out_cpu nm junk sum_junk ?in [3] [1] [1] ceil_mode cip None =
      Inr (ex_tensor Contiguous st [1, 1, 2, 2]
          (replicate 4 (0 + scalar_div nm ((((0 + one) + one) + one) + one) (if cip then 9 else 4))))"
      by (rule g)
  next
    assume a: "0 + one = one \<and> scalar_div nm ((((0 + one) + one) + one) + one) 4 = one"
    have e1: "0 + one = one" by (rule conjunct1[OF a])
    have e2: "scalar_div nm ((((0 + one) + one) + one) + one) 4 = one" by (rule conjunct2[OF a])
    have "0 + scalar_div nm ((((0 + one) + one) + one) + one) (if False then 9 else 4) = 0 + one"
      by (simp only: if_False e2)
    also have "\<dots> = one" by (rule e1)
    finally have v: "0 + scalar_div nm ((((0 + one) + one) + one) + one) (if False then 9 else 4) = one" .
    show "avg_pool2d_out_cpu nm junk sum_junk ?in [3] [1] [1] ceil_mode False None =
      Inr (ex_tensor Contiguous st [1, 1, 2, 2] [one, one, one, one])"
      unfolding g[of False] v r4 ..
  qed
qed

theorem padded_ones_average_witness:
  "avg_pool2d_out_cpu sym_numerics (\<lambda>k. Zero) (\<lambda>k. Zero)
     (ex_tensor Contiguous kFloat [1, 1, 2, 2] [One, One, One, One]) [3] [1] [1] False True None =
   Inr (ex_tensor Contiguous kFloat [1, 1, 2, 2]
          (replicate 4 (Plus Zero (Quot (Plus (Plus (Plus (Plus Zero One) One) One) One) 9)))) \<and>
   avg_pool2d_out_cpu sym_numerics (\<lambda>k. Zero) (\<lambda>k. Zero)
     (ex_tensor Contiguous kFloat [1, 1, 2, 2] [One, One, One, One]) [3] [1] [1] False False None =
   Inr (ex_tensor Contiguous kFloat [1, 1, 2, 2]
          (replicate 4 (Plus Zero (Quot (Plus (Plus (Plus (Plus Zero One) One) One) One) 4)))) \<and>
   avg_pool2d_out_cpu exact_numerics stale stale
     (ex_tensor Contiguous kDouble [1, 1, 2, 2] [1, 1, 1, 1]) [3] [1] [1] False False None =
   Inr (ex_tensor Contiguous kDouble [1, 1, 2, 2] [1, 1, 1, 1])"
proof -
  have f: "kFloat = kFloat \<or> kFloat = kDouble" "kDouble = kFloat \<or> kDouble = kDouble" by simp_all
  have l: "(0 :: rat) + 1 = 1 \<and> scalar_div exact_numerics (((((0 :: rat) + 1) + 1) + 1) + 1) 4 = 1"
    by (simp add: exact_numerics_def)
  note a = padded_ones_average[OF f(1), where nm = sym_numerics and junk = "\<lambda>k. Zero"
      and sum_junk = "\<lambda>k. Zero" and one = One and ceil_mode = False, THEN conjunct1]
  note b = padded_ones_average[OF f(2), where nm = exact_numerics and junk = stale
      and sum_junk = stale and one = 1 and ceil_mode = False and cip = False,
      THEN conjunct2, THEN mp, OF l]
  show ?thesis
    using a[of True] a[of False] b
    by (simp add: sym_numerics_def zero_sym_def plus_sym_def)
qed


subsection \<open>The size lists of the entry points\<close>

lemma bind_safe_downcast:
  "bind (safe_downcast v) k = (if - (2 ^ 31) \<le> v \<and> v < 2 ^ 31 then k v else Inl InvalidArgument)"
  by (simp add: bind_def safe_downcast_def)

lemma bind_if:
  "bind (if c then Inr x else m) k = (if c then k x else bind m k)"
  by (simp add: bind_def)

lemma bind_Inr: "bind (Inr x) k = k x"
  by (simp add: bind_def)

lemma check_fail:
  "(c \<Longrightarrow> m = Inl e) \<Longrightarrow> check c e m = Inl e"
  by (simp add: check_def)

lemma bind_fail:
  "(\<And>e'. m = Inl e' \<Longrightarrow> e' = e) \<Longrightarrow> (\<And>x. k x = Inl e) \<Longrightarrow> bind m k = Inl e"
  by (cases m) (simp_all add: bind_def)

lemma downcast_fails_invalid:
  "safe_downcast v = Inl e' \<Longrightarrow> e' = InvalidArgument"
  "(if c then Inr x else safe_downcast v) = Inl e' \<Longrightarrow> e' = InvalidArgument"
  "(if c then Inr x else if c' then Inr y else safe_downcast v) = Inl e' \<Longrightarrow> e' = InvalidArgument"
  by (simp_all add: safe_downcast_def split: if_splits)

lemma hd_last_of_sizes:
  assumes "length (xs :: int list) = 1 \<or> length xs = 2"
  shows "xs ! 0 = hd xs" "(if length xs = 1 then xs ! 0 else xs ! 1) = last xs"
    "(if length xs = 1 then hd xs else xs ! 1) = last xs"
proof -
  from assms have "(\<exists>a. xs = [a]) \<or> (\<exists>a b. xs = [a, b])"
    by (auto simp: length_Suc_conv numeral_2_eq_2)
  then show "xs ! 0 = hd xs" "(if length xs = 1 then xs ! 0 else xs ! 1) = last xs"
    "(if length xs = 1 then hd xs else xs ! 1) = last xs"
    by auto
qed

text \<open>
  Claim C9.  At both entry points an empty stride list is accepted and the
  stride defaults to the kernel size: once the kernel and padding lists have a
  length of 1 or 2 and the divisor override is not zero (and, backward, the
  values fit 32 bits), the call with the empty stride list is the computation
  on the sized arguments in which the vertical stride is the kernel height and
  the horizontal stride the kernel width; a stride list with one value gives
  that value to both strides.
\<close>

theorem empty_stride_defaults_to_kernel:
  "((length kernel_size = 1 \<or> length kernel_size = 2) \<and>
    (length padding = 1 \<or> length padding = 2) \<and> dov \<noteq> Some 0
    \<longrightarrow>
    avg_pool2d_out_cpu nm junk sum_junk input kernel_size [] padding cm cip dov =
      avg_pool2d_out_cpu_sized nm junk sum_junk input (hd kernel_size) (last kernel_size)
        (hd kernel_size) (last kernel_size) (hd padding) (last padding) cm cip dov \<and>
    avg_pool2d_out_cpu nm junk sum_junk input kernel_size [d] padding cm cip dov =
      avg_pool2d_out_cpu_sized nm junk sum_junk input (hd kernel_size) (last kernel_size)
        d d (hd padding) (last padding) cm cip dov) \<and>
   ((length kernel_size = 1 \<or> length kernel_size = 2) \<and>
    (length padding = 1 \<or> length padding = 2) \<and> dov \<noteq> Some 0 \<and>
    - (2 ^ 31) \<le> hd kernel_size \<and> hd kernel_size < 2 ^ 31 \<and>
    - (2 ^ 31) \<le> last kernel_size \<and> last kernel_size < 2 ^ 31 \<and>
    - (2 ^ 31) \<le> hd padding \<and> hd padding < 2 ^ 31 \<and>
    - (2 ^ 31) \<le> last padding \<and> last padding < 2 ^ 31
    \<longrightarrow>
    avg_pool2d_backward_out_cpu nm gradOutput input kernel_size [] padding cm cip dov =
      avg_pool2d_backward_out_cpu_sized nm gradOutput input (hd kernel_size) (last kernel_size)
        (hd kernel_size) (last kernel_size) (hd padding) (last padding) cm cip dov \<and>
    (- (2 ^ 31) \<le> d \<and> d < 2 ^ 31 \<longrightarrow>
     avg_pool2d_backward_out_cpu nm gradOutput input kernel_size [d] padding cm cip dov =
       avg_pool2d_backward_out_cpu_sized nm gradOutput input (hd kernel_size) (last kernel_size)
         d d (hd padding) (last padding) cm cip dov))"
proof (intro conjI impI)
  assume a: "(length kernel_size = 1 \<or> length kernel_size = 2) \<and>
    (length padding = 1 \<or> length padding = 2) \<and> dov \<noteq> Some 0"
  then have k: "length kernel_size = 1 \<or> length kernel_size = 2"
    and p: "length padding = 1 \<or> length padding = 2"
    and v: "dov = None \<or> the dov \<noteq> 0" by auto
  note hk = hd_last_of_sizes[OF k] and hp = hd_last_of_sizes[OF p]
  show "avg_pool2d_out_cpu nm junk sum_junk input kernel_size [] padding cm cip dov =
      avg_pool2d_out_cpu_sized nm junk sum_junk input (hd kernel_size) (last kernel_size)
        (hd kernel_size) (last kernel_size) (hd padding) (last padding) cm cip dov"
    unfolding avg_pool2d_out_cpu_def Let_def hk hp using k p v by (simp add: check_def)
  show "avg_pool2d_out_cpu nm junk sum_junk input kernel_size [d] padding cm cip dov =
      avg_pool2d_out_cpu_sized nm junk sum_junk input (hd kernel_size) (last kernel_size)
        d d (hd padding) (last padding) cm cip dov"
    unfolding avg_pool2d_out_cpu_def Let_def hk hp using k p v by (simp add: check_def)
next
  assume a: "(length kernel_size = 1 \<or> length kernel_size = 2) \<and>
    (length padding = 1 \<or> length padding = 2) \<and> dov \<noteq> Some 0 \<and>
    - (2 ^ 31) \<le> hd kernel_size \<and> hd kernel_size < 2 ^ 31 \<and>
    - (2 ^ 31) \<le> last kernel_size \<and> last kernel_size < 2 ^ 31 \<and>
    - (2 ^ 31) \<le> hd padding \<and> hd padding < 2 ^ 31 \<and>
    - (2 ^ 31) \<le> last padding \<and> last padding < 2 ^ 31"
  then have k: "length kernel_size = 1 \<or> length kernel_size = 2"
    and p: "length padding = 1 \<or> length padding = 2"
    and v: "dov = None \<or> the dov \<noteq> 0" by auto
  note hk = hd_last_of_sizes[OF k] and hp = hd_last_of_sizes[OF p]
  have r: "- (2 ^ 31) \<le> hd kernel_size \<and> hd kernel_size < 2 ^ 31"
    "- (2 ^ 31) \<le> last kernel_size \<and> last kernel_size < 2 ^ 31"
    "- (2 ^ 31) \<le> hd padding \<and> hd padding < 2 ^ 31"
    "- (2 ^ 31) \<le> last padding \<and> last padding < 2 ^ 31"
    using a by simp_all
  have dk: "safe_downcast (hd kernel_size) = Inr (hd kernel_size)"
    "safe_downcast (last kernel_size) = Inr (last kernel_size)"
    "safe_downcast (hd padding) = Inr (hd padding)"
    "safe_downcast (last padding) = Inr (last padding)"
    using r by (simp_all add: safe_downcast_def)
  have k1: "(if length kernel_size = 1 then Inr (hd kernel_size) else safe_downcast (kernel_size ! 1)) =
            Inr (last kernel_size)"
    using hk(3) hk(1) dk(2) by (auto split: if_splits)
  have p1: "(if length padding = 1 then Inr (hd padding) else safe_downcast (padding ! 1)) =
            Inr (last padding)"
    using hp(3) hp(1) dk(4) by (auto split: if_splits)
  show "avg_pool2d_backward_out_cpu nm gradOutput input kernel_size [] padding cm cip dov =
      avg_pool2d_backward_out_cpu_sized nm gradOutput input (hd kernel_size) (last kernel_size)
        (hd kernel_size) (last kernel_size) (hd padding) (last padding) cm cip dov"
    unfolding avg_pool2d_backward_out_cpu_def hk(1) hp(1) dk bind_Inr k1 p1
    using k p v by (simp add: check_def bind_Inr)
  assume d: "- (2 ^ 31) \<le> d \<and> d < 2 ^ 31"
  then have dd: "safe_downcast d = Inr d" by (simp add: safe_downcast_def)
  show "avg_pool2d_backward_out_cpu nm gradOutput input kernel_size [d] padding cm cip dov =
       avg_pool2d_backward_out_cpu_sized nm gradOutput input (hd kernel_size) (last kernel_size)
         d d (hd padding) (last padding) cm cip dov"
    unfolding avg_pool2d_backward_out_cpu_def hk(1) hp(1) dk bind_Inr k1 p1
    using k p v by (simp add: check_def bind_Inr dd)
qed

text \<open>
  Claim C7, as amended.  If the kernel or the padding list has a length other
  than 1 or 2, or the stride list a length other than 0, 1 or 2, or the divisor
  override is zero, then both entry points fail with \<open>InvalidArgument\<close>: no
  tensor is returned, and no kernel was run.
\<close>

theorem malformed_arguments_fail:
  assumes "\<not> (length kernel_size = 1 \<or> length kernel_size = 2) \<or>
           \<not> (length stride = 0 \<or> length stride = 1 \<or> length stride = 2) \<or>
           \<not> (length padding = 1 \<or> length padding = 2) \<or>
           divisor_override = Some 0"
  shows "avg_pool2d_out_cpu nm junk sum_junk input kernel_size stride padding
           ceil_mode count_include_pad divisor_override = Inl InvalidArgument \<and>
         avg_pool2d_backward_out_cpu nm gradOutput input kernel_size stride padding
           ceil_mode count_include_pad divisor_override = Inl InvalidArgument"
proof
  show "avg_pool2d_out_cpu nm junk sum_junk input kernel_size stride padding
           ceil_mode count_include_pad divisor_override = Inl InvalidArgument"
    using assms by (auto simp add: avg_pool2d_out_cpu_def check_def Let_def)
  show "avg_pool2d_backward_out_cpu nm gradOutput input kernel_size stride padding
           ceil_mode count_include_pad divisor_override = Inl InvalidArgument"
    unfolding avg_pool2d_backward_out_cpu_def
    apply (rule check_fail)
    apply (rule bind_fail, erule downcast_fails_invalid)
    apply (rule bind_fail, erule downcast_fails_invalid)
    apply (rule check_fail)
    apply (rule bind_fail, erule downcast_fails_invalid)
    apply (rule bind_fail, erule downcast_fails_invalid)
    apply (rule check_fail)
    apply (rule bind_fail, erule downcast_fails_invalid)
    apply (rule bind_fail, erule downcast_fails_invalid)
    apply (rule check_fail)
    using assms by auto
qed

theorem malformed_arguments_fail_witness:
  "avg_pool2d_out_cpu exact_numerics stale stale
     (ex_tensor Contiguous kFloat [1, 4, 4] (replicate 16 1)) [2] [1, 2, 3] [0] False True None =
   Inl InvalidArgument \<and>
   avg_pool2d_backward_out_cpu exact_numerics
     (ex_tensor Contiguous kFloat [1, 2, 2] [4, 8, 12, 16])
     (ex_tensor Contiguous kFloat [1, 4, 4] (replicate 16 1)) [2] [1, 2, 3] [0] False True None =
   Inl InvalidArgument"
  using malformed_arguments_fail[where stride = "[1, 2, 3]" and kernel_size = "[2]" and padding = "[0]"
      and divisor_override = None]
  by simp


lemmas entry_eval = avg_pool2d_out_cpu_def avg_pool2d_out_cpu_sized_def check_def bind_def
  pooling_output_shape_def pool2d_shape_check_def ex_tensor_def ndimension_def size_at_def
  suggest_memory_format_def avg_pool2d_kernel_impl_def AT_DISPATCH_FLOATING_TYPES_AND2_def
  exact_numerics_def Let_def

lemmas tensor_eval = empty_resized_def ex_tensor_def numel_def size_at_def ndimension_def

lemmas value_eval = avg_pool_value_def pool_window_def pool_divide_factor_def Let_def

text \<open>
  Claim C7 as stated fails: a stride list of length 0, which is neither 1 nor 2,
  is accepted, and the call returns a tensor.
\<close>

theorem empty_stride_is_accepted:
  "length ([] :: int list) \<noteq> 1 \<and> length ([] :: int list) \<noteq> 2 \<and>
   avg_pool2d_out_cpu exact_numerics stale stale
     (ex_tensor Contiguous kFloat [1, 4, 4] (replicate 16 1)) [2] [] [0] False True None =
   Inr (ex_tensor Contiguous kFloat [1, 2, 2] [1, 1, 1, 1])"
proof -
  let ?out = "empty_resized stale kFloat [1, 2, 2] Contiguous"
  let ?in = "ex_tensor Contiguous kFloat [1, 4, 4] (replicate 16 (1::rat))"
  have e: "avg_pool2d_out_cpu exact_numerics stale stale ?in [2] [] [0] False True None =
     cpu_avg_pool (\<lambda>x. x) (\<lambda>x. x) (\<lambda>x d. x / of_int d) False ?out ?in 2 2 2 2 0 0 True None"
    by (simp add: entry_eval)
  have k: "cpu_avg_pool (\<lambda>x. x) (\<lambda>x. x) (\<lambda>x d. x / of_int d) False ?out ?in 2 2 2 2 0 0 True None =
      Inr (?out\<lparr>data := map (\<lambda>i. avg_pool_value (\<lambda>x. x) (\<lambda>x. x) (\<lambda>x d. x / of_int d) (data ?in)
             (int (size_at ?in (- 2))) (int (size_at ?in (- 1))) 2 2 2 2 0 0 True None
             ((i div size_at ?out (- 1) div size_at ?out (- 2)) mod
                (if ndimension ?in = 3 then size_at ?in 0 else size_at ?in 0 * size_at ?in 1))
             ((i div size_at ?out (- 1)) mod size_at ?out (- 2)) (i mod size_at ?out (- 1)))
           [0..<numel ?out]\<rparr>)"
    by (rule cpu_avg_pool_closed) (simp_all add: tensor_eval avg_pool_traps_def)
  have u: "[0..<4] = [0, 1, 2, 3::nat]" by (simp add: upt_rec)
  have r: "replicate 16 (1::rat) = [1, 1, 1, 1, 1, 1, 1, 1, 1, 1, 1, 1, 1, 1, 1, 1]"
    by (simp add: numeral_eq_Suc)
  show ?thesis
    unfolding e k
    apply (simp add: tensor_eval u r)
    apply (simp add: value_eval)
    apply (simp add: upto_unfold)
    done
qed

subsection \<open>Calls with an empty stride list\<close>

lemma strided_forward:
  "avg_pool2d_out_cpu_sized exact_numerics stale stale
     (ex_tensor Contiguous kFloat [1, 1, 1, 4] [1, 2, 3, 4]) 1 2 1 2 0 0 False True None =
   Inr (ex_tensor Contiguous kFloat [1, 1, 1, 2] [3 / 2, 7 / 2])"
  "avg_pool2d_out_cpu_sized exact_numerics stale stale
     (ex_tensor Contiguous kFloat [1, 1, 1, 4] [1, 2, 3, 4]) 1 2 1 1 0 0 False True None =
   Inr (ex_tensor Contiguous kFloat [1, 1, 1, 3] [3 / 2, 5 / 2, 7 / 2])"
proof -
  let ?in = "ex_tensor Contiguous kFloat [1, 1, 1, 4] [1, 2, 3, 4 :: rat]"
  have e2: "avg_pool2d_out_cpu_sized exact_numerics stale stale ?in 1 2 1 2 0 0 False True None =
     cpu_avg_pool (\<lambda>x. x) (\<lambda>x. x) (\<lambda>x d. x / of_int d) False
       (empty_resized stale kFloat [1, 1, 1, 2] Contiguous) ?in 2 1 2 1 0 0 True None"
    by (simp add: entry_eval)
  have e1: "avg_pool2d_out_cpu_sized exact_numerics stale stale ?in 1 2 1 1 0 0 False True None =
     cpu_avg_pool (\<lambda>x. x) (\<lambda>x. x) (\<lambda>x d. x / of_int d) False
       (empty_resized stale kFloat [1, 1, 1, 3] Contiguous) ?in 2 1 1 1 0 0 True None"
    by (simp add: entry_eval)
  have k: "cpu_avg_pool (\<lambda>x. x) (\<lambda>x. x) (\<lambda>x d. x / of_int d) False
       (empty_resized stale kFloat [1, 1, 1, n] Contiguous) ?in 2 1 d 1 0 0 True None =
      Inr ((empty_resized stale kFloat [1, 1, 1, n] Contiguous)
           \<lparr>data := map (\<lambda>i. avg_pool_value (\<lambda>x. x) (\<lambda>x. x) (\<lambda>x d. x / of_int d) (data ?in)
             (int (size_at ?in (- 2))) (int (size_at ?in (- 1))) 2 1 d 1 0 0 True None
             ((i div size_at (empty_resized stale kFloat [1, 1, 1, n] Contiguous) (- 1)
                 div size_at (empty_resized stale kFloat [1, 1, 1, n] Contiguous) (- 2)) mod
                (if ndimension ?in = 3 then size_at ?in 0 else size_at ?in 0 * size_at ?in 1))
             ((i div size_at (empty_resized stale kFloat [1, 1, 1, n] Contiguous) (- 1)) mod
                size_at (empty_resized stale kFloat [1, 1, 1, n] Contiguous) (- 2))
             (i mod size_at (empty_resized stale kFloat [1, 1, 1, n] Contiguous) (- 1)))
           [0..<numel (empty_resized stale kFloat [1, 1, 1, n] Contiguous)]\<rparr>)" for d n
    by (rule cpu_avg_pool_closed) (simp_all add: tensor_eval avg_pool_traps_def)
  have u: "[0..<2] = [0, 1 :: nat]" "[0..<3] = [0, 1, 2 :: nat]" by (simp_all add: upt_rec)
  show "avg_pool2d_out_cpu_sized exact_numerics stale stale ?in 1 2 1 2 0 0 False True None =
      Inr (ex_tensor Contiguous kFloat [1, 1, 1, 2] [3 / 2, 7 / 2])"
    unfolding e2 k
    apply (simp add: tensor_eval u)
    apply (simp add: value_eval)
    apply (simp add: upto_unfold)
    done
  show "avg_pool2d_out_cpu_sized exact_numerics stale stale ?in 1 2 1 1 0 0 False True None =
      Inr (ex_tensor Contiguous kFloat [1, 1, 1, 3] [3 / 2, 5 / 2, 7 / 2])"
    unfolding e1 k
    apply (simp add: tensor_eval u)
    apply (simp add: value_eval)
    apply (simp add: upto_unfold)
    done
qed

lemmas backward_eval = avg_pool2d_backward_out_cpu_sized_def check_def bind_def
  pooling_output_shape_def avg_pool2d_backward_shape_check_def pool2d_shape_check_def
  check_dim_size_def ex_tensor_def ndimension_def size_at_def suggest_memory_format_def
  avg_pool2d_backward_kernel_impl_def AT_DISPATCH_FLOATING_TYPES_AND2_def exact_numerics_def
  zeros_def Let_def

lemma strided_backward:
  "avg_pool2d_backward_out_cpu_sized exact_numerics
     (ex_tensor Contiguous kFloat [1, 1, 1, 2] [2, 4])
     (ex_tensor Contiguous kFloat [1, 1, 1, 4] [1, 2, 3, 4]) 1 2 1 2 0 0 False True None =
   Inr (ex_tensor Contiguous kFloat [1, 1, 1, 4] [1, 1, 2, 2])"
  "avg_pool2d_backward_out_cpu_sized exact_numerics
     (ex_tensor Contiguous kFloat [1, 1, 1, 2] [2, 4])
     (ex_tensor Contiguous kFloat [1, 1, 1, 4] [1, 2, 3, 4]) 1 2 1 1 0 0 False True None =
   Inl ShapeMismatch"
proof -
  let ?g = "ex_tensor Contiguous kFloat [1, 1, 1, 2] [2, 4 :: rat]"
  let ?in = "ex_tensor Contiguous kFloat [1, 1, 1, 4] [1, 2, 3, 4 :: rat]"
  have e: "avg_pool2d_backward_out_cpu_sized exact_numerics ?g ?in 1 2 1 2 0 0 False True None =
     cpu_avg_pool_backward (\<lambda>x d. x / of_int d) False
       (ex_tensor Contiguous kFloat [1, 1, 1, 4] [0, 0, 0, 0]) ?g 2 1 2 1 0 0 True None"
    by (simp add: backward_eval numeral_eq_Suc)
  have k: "cpu_avg_pool_backward (\<lambda>x d. x / of_int d) False
       (ex_tensor Contiguous kFloat [1, 1, 1, 4] [0, 0, 0, 0]) ?g 2 1 2 1 0 0 True None =
     Inr (ex_tensor Contiguous kFloat [1, 1, 1, 4] [1, 1, 2, 2])"
    by (simp add: cpu_avg_pool_backward_def tensor_eval parallel_for_def write_back_def
      cpu_avg_pool_backward_window_def pool_window_def pool_divide_factor_def Let_def
      upto_unfold)
  show "avg_pool2d_backward_out_cpu_sized exact_numerics ?g ?in 1 2 1 2 0 0 False True None =
     Inr (ex_tensor Contiguous kFloat [1, 1, 1, 4] [1, 1, 2, 2])"
    unfolding e k ..
  show "avg_pool2d_backward_out_cpu_sized exact_numerics ?g ?in 1 2 1 1 0 0 False True None =
     Inl ShapeMismatch"
    by (simp add: backward_eval)
qed

text \<open>
  Calls with an empty stride list (claim C9): forward and backward, the result is
  that of stride 2, the kernel width, and not that of stride 1.
\<close>

theorem empty_stride_defaults_to_kernel_witness:
  "avg_pool2d_out_cpu exact_numerics stale stale
     (ex_tensor Contiguous kFloat [1, 1, 1, 4] [1, 2, 3, 4]) [1, 2] [] [0] False True None =
   Inr (ex_tensor Contiguous kFloat [1, 1, 1, 2] [3 / 2, 7 / 2]) \<and>
   avg_pool2d_out_cpu exact_numerics stale stale
     (ex_tensor Contiguous kFloat [1, 1, 1, 4] [1, 2, 3, 4]) [1, 2] [1] [0] False True None =
   Inr (ex_tensor Contiguous kFloat [1, 1, 1, 3] [3 / 2, 5 / 2, 7 / 2]) \<and>
   avg_pool2d_backward_out_cpu exact_numerics
     (ex_tensor Contiguous kFloat [1, 1, 1, 2] [2, 4])
     (ex_tensor Contiguous kFloat [1, 1, 1, 4] [1, 2, 3, 4]) [1, 2] [] [0] False True None =
   Inr (ex_tensor Contiguous kFloat [1, 1, 1, 4] [1, 1, 2, 2]) \<and>
   avg_pool2d_backward_out_cpu exact_numerics
     (ex_tensor Contiguous kFloat [1, 1, 1, 2] [2, 4])
     (ex_tensor Contiguous kFloat [1, 1, 1, 4] [1, 2, 3, 4]) [1, 2] [1] [0] False True None =
   Inl ShapeMismatch"
proof -
  let ?g = "ex_tensor Contiguous kFloat [1, 1, 1, 2] [2, 4 :: rat]"
  let ?in = "ex_tensor Contiguous kFloat [1, 1, 1, 4] [1, 2, 3, 4 :: rat]"
  have p1: "(length [1, 2 :: int] = 1 \<or> length [1, 2 :: int] = 2) \<and>
    (length [0 :: int] = 1 \<or> length [0 :: int] = 2) \<and> (None :: int option) \<noteq> Some 0"
    by simp
  have p2: "(length [1, 2 :: int] = 1 \<or> length [1, 2 :: int] = 2) \<and>
    (length [0 :: int] = 1 \<or> length [0 :: int] = 2) \<and> (None :: int option) \<noteq> Some 0 \<and>
    - (2 ^ 31) \<le> hd [1, 2 :: int] \<and> hd [1, 2 :: int] < 2 ^ 31 \<and>
    - (2 ^ 31) \<le> last [1, 2 :: int] \<and> last [1, 2 :: int] < 2 ^ 31 \<and>
    - (2 ^ 31) \<le> hd [0 :: int] \<and> hd [0 :: int] < 2 ^ 31 \<and>
    - (2 ^ 31) \<le> last [0 :: int] \<and> last [0 :: int] < 2 ^ 31"
    by simp
  have p3: "- (2 ^ 31) \<le> (1 :: int) \<and> (1 :: int) < 2 ^ 31" by simp
  note th = empty_stride_defaults_to_kernel[where nm = exact_numerics and junk = stale
      and sum_junk = stale and input = ?in and gradOutput = ?g and kernel_size = "[1, 2]"
      and padding = "[0]" and cm = False and cip = True and dov = None and d = 1]
  note f = th[THEN conjunct1, THEN mp, OF p1]
  note b = th[THEN conjunct2, THEN mp, OF p2]
  have hl: "hd [1, 2 :: int] = 1" "last [1, 2 :: int] = 2" "hd [0 :: int] = 0" "last [0 :: int] = 0"
    by simp_all
  show ?thesis
    unfolding f[THEN conjunct1] f[THEN conjunct2] b[THEN conjunct1]
      b[THEN conjunct2, THEN mp, OF p3] hl strided_backward strided_forward
    by simp
qed


subsection \<open>Loops that write one place or one lane per step\<close>

lemma for_each_preserves:
  assumes "for_each xs body s = Inr s'"
    and "\<And>i t t'. i \<in> set xs \<Longrightarrow> body i t = Inr t' \<Longrightarrow> get t' = get t"
  shows "get s' = get s"
  using assms
proof (induction xs arbitrary: s)
  case Nil
  then show ?case by simp
next
  case (Cons i xs)
  from Cons.prems(1) obtain t where t: "body i s = Inr t" and r: "for_each xs body t = Inr s'"
    by (auto split: sum.splits)
  have "get s' = get t" using r Cons.prems(2) by (intro Cons.IH) auto
  moreover have "get t = get s" using t Cons.prems(2)[of i s t] by simp
  ultimately show ?case by simp
qed

lemma for_each_value_at:
  assumes run: "for_each xs body s = Inr s'"
    and j: "j \<in> set xs"
    and post: "\<And>t t'. body j t = Inr t' \<Longrightarrow> get t' = z"
    and frame: "\<And>i t t'. i \<in> set xs \<Longrightarrow> i \<noteq> j \<Longrightarrow> body i t = Inr t' \<Longrightarrow> get t' = get t"
  shows "get s' = z"
  using run j frame
proof (induction xs arbitrary: s)
  case Nil
  then show ?case by simp
next
  case (Cons i xs)
  from Cons.prems(1) obtain t where t: "body i s = Inr t" and r: "for_each xs body t = Inr s'"
    by (auto split: sum.splits)
  show ?case
  proof (cases "j \<in> set xs")
    case True
    then show ?thesis using r Cons.prems(3) by (intro Cons.IH) auto
  next
    case False
    then have ij: "i = j" using Cons.prems(2) by simp
    have "get s' = get t"
      using r
    proof (rule for_each_preserves)
      fix i' u u' assume "i' \<in> set xs" "body i' u = Inr u'"
      then show "get u' = get u" using False Cons.prems(3)[of i' u u'] by auto
    qed
    then show ?thesis using post t ij by simp
  qed
qed

lemma length_lane_update [simp]: "length (lane_update f base n buf) = length buf"
proof -
  have "length (fold (\<lambda>d b. b[base + d := f d (b ! (base + d))]) ds buf) = length buf" for ds
    by (induction ds arbitrary: buf) simp_all
  then show ?thesis by (simp add: lane_update_def)
qed

lemma lane_update_outside:
  assumes "k < base \<or> base + n \<le> k"
  shows "lane_update f base n buf ! k = buf ! k"
proof -
  have "fold (\<lambda>d b. b[base + d := f d (b ! (base + d))]) ds buf ! k = buf ! k"
    if "\<forall>d\<in>set ds. base + d \<noteq> k" for ds
    using that by (induction ds arbitrary: buf) simp_all
  moreover have "\<forall>d\<in>set [0..<n]. base + d \<noteq> k" using assms by auto
  ultimately show ?thesis by (simp add: lane_update_def)
qed

lemma lane_update_inside:
  assumes "base + n \<le> length buf" "d < n"
  shows "lane_update f base n buf ! (base + d) = f d (buf ! (base + d))"
  using assms
proof (induction n arbitrary: d)
  case 0
  then show ?case by simp
next
  case (Suc n)
  have unf: "lane_update f base (Suc n) buf =
      (lane_update f base n buf)[base + n := f n (lane_update f base n buf ! (base + n))]"
    by (simp add: lane_update_def)
  show ?case
  proof (cases "d = n")
    case True
    have "lane_update f base n buf ! (base + n) = buf ! (base + n)"
      by (rule lane_update_outside) simp
    then show ?thesis using Suc.prems True by (simp add: unf)
  next
    case False
    then have "d < n" using Suc.prems by simp
    then show ?thesis using Suc.prems Suc.IH[of d] by (simp add: unf)
  qed
qed

lemma lane_fold_outside:
  assumes "k < base \<or> base + n \<le> k"
  shows "fold (\<lambda>x b. lane_update (f x) base n b) xs buf ! k = buf ! k"
  using assms by (induction xs arbitrary: buf) (simp_all add: lane_update_outside)

lemma lane_fold2_outside:
  assumes "k < base \<or> base + n \<le> k"
  shows "fold (\<lambda>x b. fold (\<lambda>y b. lane_update (f x y) base n b) (ys x) b) xs buf ! k = buf ! k"
  using assms by (induction xs arbitrary: buf) (simp_all add: lane_fold_outside)


subsection \<open>Output positions whose window is empty\<close>

lemma decode3:
  fixes a b c :: nat
  assumes "b < B" "c < C"
  shows "((a * B + b) * C + c) div C div B = a"
    and "(((a * B + b) * C + c) div C) mod B = b"
    and "((a * B + b) * C + c) mod C = c"
    and "a < A \<Longrightarrow> (a * B + b) * C + c < A * B * C"
proof -
  have d: "((a * B + b) * C + c) div C = a * B + b" using assms by simp
  show "((a * B + b) * C + c) div C div B = a" unfolding d using assms by simp
  show "(((a * B + b) * C + c) div C) mod B = b" unfolding d using assms by simp
  show "((a * B + b) * C + c) mod C = c" using assms by simp
  assume "a < A"
  then have "a * B + b < A * B" using assms(1)
    by (metis add.commute mult.commute mult_Suc_right less_le_trans add_less_cancel_left
        Suc_leI mult_le_mono2 nat_add_left_cancel_less)
  then have "(a * B + b) * C + c < (a * B + b) * C + C" using assms(2) by simp
  also have "\<dots> = Suc (a * B + b) * C" by simp
  also have "\<dots> \<le> (A * B) * C" using \<open>a * B + b < A * B\<close> by (intro mult_le_mono1) simp
  finally show "(a * B + b) * C + c < A * B * C" .
qed

lemma avg_pool_value_empty:
  assumes "window_empty (pool_window (int oh) (int ow) kW kH dW dH padW padH IH IW)"
  shows "avg_pool_value widen narrow acc_div inp IH IW kW kH dW dH padW padH cip dov c oh ow = 0"
    and "\<not> avg_pool_traps traps IH IW kW kH dW dH padW padH cip dov oh ow"
  using assms
  by (auto simp add: avg_pool_value_def avg_pool_traps_def window_empty_def Let_def split: prod.splits)

lemma cpu_avg_pool_empty_window:
  fixes output' input' :: "('a::{zero,plus}) tensor"
  defines "channels \<equiv> (if ndimension input' = 3 then size_at input' 0
                        else size_at input' 0 * size_at input' 1)"
  defines "OH \<equiv> size_at output' (- 2)" and "OW \<equiv> size_at output' (- 1)"
  defines "IH \<equiv> int (size_at input' (- 2))" and "IW \<equiv> int (size_at input' (- 1))"
  assumes run: "cpu_avg_pool widen narrow acc_div traps output' input'
                  kW kH dW dH padW padH cip dov = Inr t"
    and fmt: "memory_format output' = Contiguous" "memory_format input' = Contiguous"
    and ext: "numel output' = channels * OH * OW"
    and pos: "c < channels" "oh < OH" "ow < OW"
    and empty: "window_empty (pool_window (int oh) (int ow) kW kH dW dH padW padH IH IW)"
  shows "data t ! ((c * OH + oh) * OW + ow) = 0"
proof -
  let ?exts = "[channels, OH, OW]"
  let ?n = "numel output'"
  let ?j = "(c * OH + oh) * OW + ow"
  let ?body = "cpu_avg_pool_body widen narrow acc_div traps (data input') IH IW
                 kW kH dW dH padW padH cip dov"
  have allpos: "\<forall>X\<in>set ?exts. 0 < X" using pos by auto
  have jn: "?j < ?n" unfolding ext using decode3(4)[OF pos(2,3) pos(1)] .
  have dj: "snd (data_index_init ?j ?exts) = [c, oh, ow]"
    unfolding data_index_init3 using decode3(1,2,3)[OF pos(2,3), of c] pos(1) by simp
  from run obtain s' where
    loop: "for_each [0..<?n] (\<lambda>i. ?body i (snd (data_index_init i ?exts))) (data output') = Inr s'"
    and t: "data t = s'"
    unfolding cpu_avg_pool_def Let_def contiguous_same[OF fmt(1)] contiguous_same[OF fmt(2)]
    unfolding channels_def[symmetric] OH_def[symmetric] OW_def[symmetric] IH_def[symmetric]
      IW_def[symmetric]
    using jn
    by (auto simp add: write_back_def fmt parallel_for_def index_loop_for_each[OF allpos]
        split: sum.splits simp del: data_index_init.simps)
  have "(\<lambda>s. s ! ?j) s' = 0"
    using loop
  proof (rule for_each_value_at[where j = ?j])
    show "?j \<in> set [0..<?n]" using jn by simp
  next
    fix u u' :: "'a list"
    assume b: "?body ?j (snd (data_index_init ?j ?exts)) u = Inr u'"
    then have "?j < length u"
      unfolding dj by (auto simp add: cpu_avg_pool_body_def split: if_splits)
    then show "u' ! ?j = 0"
      using b unfolding dj
      by (auto simp add: cpu_avg_pool_body_eq avg_pool_value_empty[OF empty])
  next
    fix i and u u' :: "'a list"
    assume "i \<noteq> ?j" and b: "?body i (snd (data_index_init i ?exts)) u = Inr u'"
    then show "u' ! ?j = u ! ?j"
      unfolding data_index_init3
      by (cases "i < length u")
        (auto simp add: cpu_avg_pool_body_eq split: if_splits, simp add: cpu_avg_pool_body_def)
  qed
  then show ?thesis using t by simp
qed


lemma lane_const_fold:
  "fold (\<lambda>d b. b[base + d := g d]) [0..<n] buf = lane_update (\<lambda>d v. g d) base n buf"
  by (simp add: lane_update_def)

lemma cpu_avg_pool_channels_last_body_frame:
  assumes "cpu_avg_pool_channels_last_body sdiv traps inp C IH IW kW kH dW dH padW padH cip dov
             i [n, oh, ow] u = Inr u'"
  shows "i * C + C \<le> length u"
    and "k < i * C \<or> i * C + C \<le> k \<Longrightarrow> u' ! k = u ! k"
    and "window_empty (pool_window (int oh) (int ow) kW kH dW dH padW padH IH IW) \<Longrightarrow>
         d < C \<Longrightarrow> u' ! (i * C + d) = 0"
proof -
  obtain ih0 iw0 ih1 iw1 ps where
    w: "pool_window (int oh) (int ow) kW kH dW dH padW padH IH IW = (ih0, iw0, ih1, iw1, ps)"
    by (metis prod_cases5)
  show len: "i * C + C \<le> length u"
    using assms by (auto simp add: cpu_avg_pool_channels_last_body_def Let_def split: if_splits)
  show "u' ! k = u ! k" if "k < i * C \<or> i * C + C \<le> k"
    using assms len that
    by (auto simp add: cpu_avg_pool_channels_last_body_def Let_def w lane_update_outside
        lane_fold2_outside split: if_splits)
  show "u' ! (i * C + d) = 0"
    if "window_empty (pool_window (int oh) (int ow) kW kH dW dH padW padH IH IW)" "d < C"
    using assms len that
    by (auto simp add: cpu_avg_pool_channels_last_body_def Let_def w window_empty_def
        lane_update_inside split: if_splits)
qed

lemma cpu_avg_pool_channels_last_bfloat16_body_frame:
  assumes "cpu_avg_pool_channels_last_bfloat16_body widen narrow fdiv inp C IH IW
             kW kH dW dH padW padH cip dov i [n, oh, ow] (sm, u) = Inr (sm', u')"
  shows "i * C + C \<le> length u"
    and "k < i * C \<or> i * C + C \<le> k \<Longrightarrow> u' ! k = u ! k"
    and "window_empty (pool_window (int oh) (int ow) kW kH dW dH padW padH IH IW) \<Longrightarrow>
         d < C \<Longrightarrow> u' ! (i * C + d) = 0"
proof -
  obtain ih0 iw0 ih1 iw1 ps where
    w: "pool_window (int oh) (int ow) kW kH dW dH padW padH IH IW = (ih0, iw0, ih1, iw1, ps)"
    by (metis prod_cases5)
  show len: "i * C + C \<le> length u"
    using assms
    by (auto simp add: cpu_avg_pool_channels_last_bfloat16_body_def Let_def split: if_splits)
  show "u' ! k = u ! k" if "k < i * C \<or> i * C + C \<le> k"
    using assms len that
    by (auto simp add: cpu_avg_pool_channels_last_bfloat16_body_def Let_def w lane_const_fold
        lane_update_outside split: if_splits)
  show "u' ! (i * C + d) = 0"
    if "window_empty (pool_window (int oh) (int ow) kW kH dW dH padW padH IH IW)" "d < C"
    using assms len that
    by (auto simp add: cpu_avg_pool_channels_last_bfloat16_body_def Let_def w window_empty_def
        lane_const_fold lane_update_inside split: if_splits)
qed


lemma lane_apart:
  fixes i j C d :: nat
  assumes "i \<noteq> j" "d < C"
  shows "j * C + d < i * C \<or> i * C + C \<le> j * C + d"
proof (cases "j < i")
  case True
  then have "Suc j * C \<le> i * C" by (intro mult_le_mono1) simp
  then show ?thesis using assms(2) by simp
next
  case False
  then have "Suc i * C \<le> j * C" using assms(1) by (intro mult_le_mono1) simp
  then show ?thesis by simp
qed

lemma cpu_avg_pool_channels_last_empty_window:
  fixes output' input' :: "('a::{zero,plus}) tensor"
  defines "nbatch \<equiv> size_at input' 0" and "C \<equiv> size_at input' 1"
  defines "OH \<equiv> size_at output' 2" and "OW \<equiv> size_at output' 3"
  defines "IH \<equiv> int (size_at input' 2)" and "IW \<equiv> int (size_at input' 3)"
  assumes run: "cpu_avg_pool_channels_last sdiv traps output' input'
                  kW kH dW dH padW padH cip dov = Inr t"
    and fmt: "memory_format output' = ChannelsLast" "memory_format input' = ChannelsLast"
    and pos: "n < nbatch" "oh < OH" "ow < OW" "d < C"
    and empty: "window_empty (pool_window (int oh) (int ow) kW kH dW dH padW padH IH IW)"
  shows "data t ! (((n * OH + oh) * OW + ow) * C + d) = 0"
proof -
  let ?exts = "[nbatch, OH, OW]"
  let ?m = "nbatch * OH * OW"
  let ?j = "(n * OH + oh) * OW + ow"
  let ?body = "cpu_avg_pool_channels_last_body sdiv traps (data input') C IH IW
                 kW kH dW dH padW padH cip dov"
  have pp: "0 < nbatch" "0 < OH" "0 < OW" using pos by auto
  then have allpos: "\<forall>X\<in>set ?exts. 0 < X" by simp
  have jn: "?j < ?m" using decode3(4)[OF pos(2,3) pos(1)] .
  have dj: "snd (data_index_init ?j ?exts) = [n, oh, ow]"
    unfolding data_index_init3 using decode3(1,2,3)[OF pos(2,3), of n] pos(1) by simp
  from run have nd: "ndimension input' = 4"
    by (auto simp add: cpu_avg_pool_channels_last_def split: if_splits)
  from run obtain s' where
    loop: "for_each [0..<?m] (\<lambda>i. ?body i (snd (data_index_init i ?exts))) (data output') = Inr s'"
    and t: "data t = s'"
    unfolding cpu_avg_pool_channels_last_def Let_def
      contiguous_same[OF fmt(1)] contiguous_same[OF fmt(2)]
    unfolding nbatch_def[symmetric] C_def[symmetric] OH_def[symmetric] OW_def[symmetric]
      IH_def[symmetric] IW_def[symmetric]
    using pp nd
    by (auto simp add: write_back_def fmt parallel_for_def index_loop_for_each[OF allpos]
        split: sum.splits simp del: data_index_init.simps)
  have "(\<lambda>s. s ! (?j * C + d)) s' = 0"
    using loop
  proof (rule for_each_value_at[where j = ?j])
    show "?j \<in> set [0..<?m]" using jn by simp
  next
    fix u u' :: "'a list"
    assume b: "?body ?j (snd (data_index_init ?j ?exts)) u = Inr u'"
    show "u' ! (?j * C + d) = 0"
      by (rule cpu_avg_pool_channels_last_body_frame(3)[OF b[unfolded dj] empty pos(4)])
  next
    fix i and u u' :: "'a list"
    assume "i \<noteq> ?j" and b: "?body i (snd (data_index_init i ?exts)) u = Inr u'"
    then have a: "?j * C + d < i * C \<or> i * C + C \<le> ?j * C + d"
      using lane_apart pos(4) by blast
    show "u' ! (?j * C + d) = u ! (?j * C + d)"
      by (rule cpu_avg_pool_channels_last_body_frame(2)[OF b[unfolded data_index_init3] a])
  qed
  then show ?thesis using t by simp
qed

lemma cpu_avg_pool_channels_last_bfloat16_empty_window:
  fixes output' input' :: "('a::zero) tensor" and widen :: "'a \<Rightarrow> 'f::{zero,plus}"
  defines "nbatch \<equiv> size_at input' 0" and "C \<equiv> size_at input' 1"
  defines "OH \<equiv> size_at output' 2" and "OW \<equiv> size_at output' 3"
  defines "IH \<equiv> int (size_at input' 2)" and "IW \<equiv> int (size_at input' 3)"
  assumes run: "cpu_avg_pool_channels_last_bfloat16 widen narrow fdiv sum_junk output' input'
                  kW kH dW dH padW padH cip dov = Inr t"
    and fmt: "memory_format output' = ChannelsLast" "memory_format input' = ChannelsLast"
    and pos: "n < nbatch" "oh < OH" "ow < OW" "d < C"
    and empty: "window_empty (pool_window (int oh) (int ow) kW kH dW dH padW padH IH IW)"
  shows "data t ! (((n * OH + oh) * OW + ow) * C + d) = 0"
proof -
  let ?exts = "[nbatch, OH, OW]"
  let ?m = "nbatch * OH * OW"
  let ?j = "(n * OH + oh) * OW + ow"
  let ?body = "cpu_avg_pool_channels_last_bfloat16_body widen narrow fdiv (data input') C IH IW
                 kW kH dW dH padW padH cip dov"
  have pp: "0 < nbatch" "0 < OH" "0 < OW" using pos by auto
  then have allpos: "\<forall>X\<in>set ?exts. 0 < X" by simp
  have jn: "?j < ?m" using decode3(4)[OF pos(2,3) pos(1)] .
  have dj: "snd (data_index_init ?j ?exts) = [n, oh, ow]"
    unfolding data_index_init3 using decode3(1,2,3)[OF pos(2,3), of n] pos(1) by simp
  from run have nd: "ndimension input' = 4"
    by (auto simp add: cpu_avg_pool_channels_last_bfloat16_def split: if_splits)
  from run obtain sm' s' where
    loop: "for_each [0..<?m] (\<lambda>i. ?body i (snd (data_index_init i ?exts)))
             (map sum_junk [0..<C], data output') = Inr (sm', s')"
    and t: "data t = s'"
    unfolding cpu_avg_pool_channels_last_bfloat16_def Let_def
      contiguous_same[OF fmt(1)] contiguous_same[OF fmt(2)]
    unfolding nbatch_def[symmetric] C_def[symmetric] OH_def[symmetric] OW_def[symmetric]
      IH_def[symmetric] IW_def[symmetric]
    using pp nd
    by (auto simp add: write_back_def fmt parallel_for_def index_loop_for_each[OF allpos]
        split: sum.splits prod.splits simp del: data_index_init.simps)
  have "(\<lambda>st. snd st ! (?j * C + d)) (sm', s') = 0"
    using loop
  proof (rule for_each_value_at[where j = ?j])
    show "?j \<in> set [0..<?m]" using jn by simp
  next
    fix st st' :: "'f list \<times> 'a list"
    assume "?body ?j (snd (data_index_init ?j ?exts)) st = Inr st'"
    then have b: "?body ?j [n, oh, ow] (fst st, snd st) = Inr (fst st', snd st')"
      unfolding dj by simp
    show "snd st' ! (?j * C + d) = 0"
      by (rule cpu_avg_pool_channels_last_bfloat16_body_frame(3)[OF b empty pos(4)])
  next
    fix i and st st' :: "'f list \<times> 'a list"
    assume "i \<noteq> ?j" and b: "?body i (snd (data_index_init i ?exts)) st = Inr st'"
    then have a: "?j * C + d < i * C \<or> i * C + C \<le> ?j * C + d"
      using lane_apart pos(4) by blast
    from b have b': "?body i [(i div OW div OH) mod nbatch, (i div OW) mod OH, i mod OW]
        (fst st, snd st) = Inr (fst st', snd st')"
      unfolding data_index_init3 by simp
    show "snd st' ! (?j * C + d) = snd st ! (?j * C + d)"
      by (rule cpu_avg_pool_channels_last_bfloat16_body_frame(2)[OF b' a])
  qed
  then show ?thesis using t by simp
qed


text \<open>
  Claim C6.  At an output position whose clamped window is empty, each of the
  three forward kernels (packed, for any accumulation type; channels-last; the
  BFloat16 instance of channels-last) leaves exactly zero, for all of its
  channels, whatever the output buffer held before and whatever the divisor
  policy and the divisor override are.  The tensors have the layout of their
  kernel, as the dispatcher and the entry point see to it.
\<close>

theorem empty_window_gives_zero:
  fixes output' input' :: "('a::{zero,plus}) tensor" and to_f :: "'a \<Rightarrow> 'f::{zero,plus}"
  shows
  "(cpu_avg_pool widen narrow acc_div traps output' input' kW kH dW dH padW padH cip dov = Inr t \<and>
    memory_format output' = Contiguous \<and> memory_format input' = Contiguous \<and>
    numel output' =
      (if ndimension input' = 3 then size_at input' 0 else size_at input' 0 * size_at input' 1) *
      size_at output' (- 2) * size_at output' (- 1) \<and>
    c < (if ndimension input' = 3 then size_at input' 0 else size_at input' 0 * size_at input' 1) \<and>
    oh < size_at output' (- 2) \<and> ow < size_at output' (- 1) \<and>
    window_empty (pool_window (int oh) (int ow) kW kH dW dH padW padH
                    (int (size_at input' (- 2))) (int (size_at input' (- 1))))
    \<longrightarrow> data t ! ((c * size_at output' (- 2) + oh) * size_at output' (- 1) + ow) = 0) \<and>
   ((cpu_avg_pool_channels_last sdiv traps output' input' kW kH dW dH padW padH cip dov = Inr t \<or>
     cpu_avg_pool_channels_last_bfloat16 to_f of_f fdiv sum_junk output' input'
       kW kH dW dH padW padH cip dov = Inr t) \<and>
    memory_format output' = ChannelsLast \<and> memory_format input' = ChannelsLast \<and>
    n < size_at input' 0 \<and> oh < size_at output' 2 \<and> ow < size_at output' 3 \<and>
    d < size_at input' 1 \<and>
    window_empty (pool_window (int oh) (int ow) kW kH dW dH padW padH
                    (int (size_at input' 2)) (int (size_at input' 3)))
    \<longrightarrow> data t ! (((n * size_at output' 2 + oh) * size_at output' 3 + ow) * size_at input' 1 + d) = 0)"
proof (intro conjI impI)
  assume a: "cpu_avg_pool widen narrow acc_div traps output' input' kW kH dW dH padW padH cip dov = Inr t \<and>
    memory_format output' = Contiguous \<and> memory_format input' = Contiguous \<and>
    numel output' =
      (if ndimension input' = 3 then size_at input' 0 else size_at input' 0 * size_at input' 1) *
      size_at output' (- 2) * size_at output' (- 1) \<and>
    c < (if ndimension input' = 3 then size_at input' 0 else size_at input' 0 * size_at input' 1) \<and>
    oh < size_at output' (- 2) \<and> ow < size_at output' (- 1) \<and>
    window_empty (pool_window (int oh) (int ow) kW kH dW dH padW padH
                    (int (size_at input' (- 2))) (int (size_at input' (- 1))))"
  show "data t ! ((c * size_at output' (- 2) + oh) * size_at output' (- 1) + ow) = 0"
    by (rule cpu_avg_pool_empty_window[of widen narrow acc_div traps output' input'
          kW kH dW dH padW padH cip dov t c oh ow]) (use a in simp_all)
next
  assume a: "(cpu_avg_pool_channels_last sdiv traps output' input' kW kH dW dH padW padH cip dov = Inr t \<or>
     cpu_avg_pool_channels_last_bfloat16 to_f of_f fdiv sum_junk output' input'
       kW kH dW dH padW padH cip dov = Inr t) \<and>
    memory_format output' = ChannelsLast \<and> memory_format input' = ChannelsLast \<and>
    n < size_at input' 0 \<and> oh < size_at output' 2 \<and> ow < size_at output' 3 \<and>
    d < size_at input' 1 \<and>
    window_empty (pool_window (int oh) (int ow) kW kH dW dH padW padH
                    (int (size_at input' 2)) (int (size_at input' 3)))"
  then consider
      "cpu_avg_pool_channels_last sdiv traps output' input' kW kH dW dH padW padH cip dov = Inr t"
    | "cpu_avg_pool_channels_last_bfloat16 to_f of_f fdiv sum_junk output' input'
         kW kH dW dH padW padH cip dov = Inr t"
    by blast
  then show "data t ! (((n * size_at output' 2 + oh) * size_at output' 3 + ow) * size_at input' 1 + d) = 0"
  proof cases
    case 1
    show ?thesis
      by (rule cpu_avg_pool_channels_last_empty_window[OF 1]) (use a in simp_all)
  next
    case 2
    show ?thesis
      by (rule cpu_avg_pool_channels_last_bfloat16_empty_window[OF 2]) (use a in simp_all)
  qed
qed


lemma index_loop_single:
  "index_loop body exts 0 (Suc 0) idx s = body 0 idx s"
  by (simp add: index_loop.simps split: sum.splits)

lemma padding_only_window:
  "window_empty (pool_window (int 0) (int 0) 1 1 1 1 1 1 1 1)"
  by (simp add: window_empty_def pool_window_def)

lemma padding_only_packed:
  "cpu_avg_pool (\<lambda>x. x) (\<lambda>x. x) (\<lambda>x d. x / of_int d) False
     (ex_tensor Contiguous kFloat [1, 1, 1, 1] [42])
     (ex_tensor Contiguous kFloat [1, 1, 1, 1] [5 :: rat]) 1 1 1 1 1 1 True (Some 7) =
   Inr (ex_tensor Contiguous kFloat [1, 1, 1, 1] [0])"
  by (simp add: cpu_avg_pool_def tensor_eval parallel_for_def index_loop_single write_back_def
      cpu_avg_pool_body_def pool_window_def Let_def)

lemma padding_only_channels_last:
  "cpu_avg_pool_channels_last (\<lambda>x d. x / of_int d) False
     (ex_tensor ChannelsLast kFloat [1, 1, 1, 1] [42])
     (ex_tensor ChannelsLast kFloat [1, 1, 1, 1] [5 :: rat]) 1 1 1 1 1 1 True (Some 7) =
   Inr (ex_tensor ChannelsLast kFloat [1, 1, 1, 1] [0])"
  by (simp add: cpu_avg_pool_channels_last_def tensor_eval parallel_for_def index_loop_single
      write_back_def cpu_avg_pool_channels_last_body_def pool_window_def Let_def lane_update_def)

lemma padding_only_bfloat16:
  "cpu_avg_pool_channels_last_bfloat16 (\<lambda>x. x) (\<lambda>x. x) (\<lambda>x d. x / of_int d) stale
     (ex_tensor ChannelsLast kBFloat16 [1, 1, 1, 1] [42])
     (ex_tensor ChannelsLast kBFloat16 [1, 1, 1, 1] [5 :: rat]) 1 1 1 1 1 1 True (Some 7) =
   Inr (ex_tensor ChannelsLast kBFloat16 [1, 1, 1, 1] [0])"
  by (simp add: cpu_avg_pool_channels_last_bfloat16_def tensor_eval parallel_for_def
      index_loop_single write_back_def cpu_avg_pool_channels_last_bfloat16_body_def
      pool_window_def Let_def lane_update_def)

theorem empty_window_gives_zero_witness:
  "cpu_avg_pool (\<lambda>x. x) (\<lambda>x. x) (\<lambda>x d. x / of_int d) False
     (ex_tensor Contiguous kFloat [1, 1, 1, 1] [42])
     (ex_tensor Contiguous kFloat [1, 1, 1, 1] [5 :: rat]) 1 1 1 1 1 1 True (Some 7) =
   Inr (ex_tensor Contiguous kFloat [1, 1, 1, 1] [0]) \<and>
   cpu_avg_pool_channels_last (\<lambda>x d. x / of_int d) False
     (ex_tensor ChannelsLast kFloat [1, 1, 1, 1] [42])
     (ex_tensor ChannelsLast kFloat [1, 1, 1, 1] [5 :: rat]) 1 1 1 1 1 1 True (Some 7) =
   Inr (ex_tensor ChannelsLast kFloat [1, 1, 1, 1] [0]) \<and>
   window_empty (pool_window (int 0) (int 0) 1 1 1 1 1 1 1 1) \<and>
   data (ex_tensor Contiguous kFloat [1, 1, 1, 1] [0 :: rat]) ! 0 = 0 \<and>
   data (ex_tensor ChannelsLast kFloat [1, 1, 1, 1] [0 :: rat]) ! 0 = 0"
proof -
  let ?o = "ex_tensor Contiguous kFloat [1, 1, 1, 1] [42 :: rat]"
  let ?i = "ex_tensor Contiguous kFloat [1, 1, 1, 1] [5 :: rat]"
  let ?t = "ex_tensor Contiguous kFloat [1, 1, 1, 1] [0 :: rat]"
  let ?o' = "ex_tensor ChannelsLast kFloat [1, 1, 1, 1] [42 :: rat]"
  let ?i' = "ex_tensor ChannelsLast kFloat [1, 1, 1, 1] [5 :: rat]"
  let ?t' = "ex_tensor ChannelsLast kFloat [1, 1, 1, 1] [0 :: rat]"
  note th = empty_window_gives_zero[where widen = "\<lambda>x. x" and narrow = "\<lambda>x. x"
      and acc_div = "\<lambda>x d. x / of_int d" and sdiv = "\<lambda>x d. x / of_int d" and traps = False
      and kW = 1 and kH = 1 and dW = 1 and dH = 1 and padW = 1 and padH = 1 and cip = True
      and dov = "Some 7" and c = 0 and n = 0 and oh = 0 and ow = 0 and d = 0
      and to_f = "\<lambda>x. x" and of_f = "\<lambda>x. x" and fdiv = "\<lambda>x d. x / of_int d" and sum_junk = stale]
  have sz: "size_at ?o (- 2) = 1" "size_at ?o (- 1) = 1" "size_at ?i (- 2) = 1" "size_at ?i (- 1) = 1"
    "size_at ?i 0 = 1" "size_at ?i 1 = 1" "ndimension ?i = 4" "numel ?o = 1"
    "memory_format ?o = Contiguous" "memory_format ?i = Contiguous"
    "size_at ?o' 2 = 1" "size_at ?o' 3 = 1" "size_at ?i' 2 = 1" "size_at ?i' 3 = 1"
    "size_at ?i' 0 = 1" "size_at ?i' 1 = 1"
    "memory_format ?o' = ChannelsLast" "memory_format ?i' = ChannelsLast"
    by (simp_all add: tensor_eval)
  have p1: "cpu_avg_pool (\<lambda>x. x) (\<lambda>x. x) (\<lambda>x d. x / of_int d) False ?o ?i 1 1 1 1 1 1 True (Some 7) = Inr ?t \<and>
    memory_format ?o = Contiguous \<and> memory_format ?i = Contiguous \<and>
    numel ?o = (if ndimension ?i = 3 then size_at ?i 0 else size_at ?i 0 * size_at ?i 1) *
      size_at ?o (- 2) * size_at ?o (- 1) \<and>
    0 < (if ndimension ?i = 3 then size_at ?i 0 else size_at ?i 0 * size_at ?i 1) \<and>
    0 < size_at ?o (- 2) \<and> 0 < size_at ?o (- 1) \<and>
    window_empty (pool_window (int 0) (int 0) 1 1 1 1 1 1
                    (int (size_at ?i (- 2))) (int (size_at ?i (- 1))))"
    unfolding sz using padding_only_packed padding_only_window by simp
  have a: "data ?t ! ((0 * size_at ?o (- 2) + 0) * size_at ?o (- 1) + 0) = 0"
    by (rule th[where output' = ?o and input' = ?i and t = ?t, THEN conjunct1, THEN mp, OF p1])
  have p2: "(cpu_avg_pool_channels_last (\<lambda>x d. x / of_int d) False ?o' ?i' 1 1 1 1 1 1 True (Some 7) = Inr ?t' \<or>
     cpu_avg_pool_channels_last_bfloat16 (\<lambda>x. x) (\<lambda>x. x) (\<lambda>x d. x / of_int d) stale ?o' ?i'
       1 1 1 1 1 1 True (Some 7) = Inr ?t') \<and>
    memory_format ?o' = ChannelsLast \<and> memory_format ?i' = ChannelsLast \<and>
    0 < size_at ?i' 0 \<and> 0 < size_at ?o' 2 \<and> 0 < size_at ?o' 3 \<and> 0 < size_at ?i' 1 \<and>
    window_empty (pool_window (int 0) (int 0) 1 1 1 1 1 1
                    (int (size_at ?i' 2)) (int (size_at ?i' 3)))"
    unfolding sz using padding_only_channels_last padding_only_window by simp
  have b: "data ?t' ! (((0 * size_at ?o' 2 + 0) * size_at ?o' 3 + 0) * size_at ?i' 1 + 0) = 0"
    by (rule th[where output' = ?o' and input' = ?i' and t = ?t', THEN conjunct2, THEN mp, OF p2])
  show ?thesis
    using a b padding_only_packed padding_only_channels_last padding_only_window
    unfolding sz by simp
qed


subsection \<open>Element kinds at dispatch\<close>

lemma scalar_type_contiguous [simp]: "scalar_type (contiguous t fmt) = scalar_type t"
  by (simp add: contiguous_def)

lemma memory_format_contiguous [simp]: "memory_format (contiguous t fmt) = fmt"
  by (simp add: contiguous_def)

lemma not_float_rejected:
  assumes "scalar_type x \<noteq> kFloat" "scalar_type x \<noteq> kDouble"
  shows "isl (pixel_shuffle_kernel out x F)" "isl (pixel_unshuffle_kernel out x F)"
    "isl (pixel_shuffle_backward_kernel out x F)" "isl (pixel_unshuffle_backward_kernel out x F)"
  using assms
  by (simp_all add: pixel_shuffle_kernel_def pixel_unshuffle_kernel_def
      pixel_shuffle_backward_kernel_def pixel_unshuffle_backward_kernel_def
      AT_DISPATCH_FLOATING_TYPES_def split: MemoryFormat.splits)

text \<open>
  Claim C10.  For an input whose element kind is neither the 32-bit nor the
  64-bit float, \<open>pixel_shuffle\<close>, \<open>pixel_unshuffle\<close> and the backward of
  both return an error and no tensor; in the packed and the channels-last
  layout the four dispatchers return \<open>UnsupportedScalarType\<close> without
  calling a kernel.  The dispatcher of average pooling hands the kinds BFloat16
  and Long to its kernels.
\<close>

theorem shuffle_dispatch_floats_only:
  "(scalar_type x \<noteq> kFloat \<and> scalar_type x \<noteq> kDouble \<longrightarrow>
      isl (pixel_shuffle grad_mode junk x F) \<and> isl (pixel_unshuffle grad_mode junk x F) \<and>
      isl (PixelShuffleOp_backward junk ctx x) \<and> isl (PixelUnshuffleOp_backward junk ctx x) \<and>
      ((memory_format x = Contiguous \<or> memory_format x = ChannelsLast) \<longrightarrow>
         pixel_shuffle_kernel out x k = Inl UnsupportedScalarType \<and>
         pixel_unshuffle_kernel out x k = Inl UnsupportedScalarType \<and>
         pixel_shuffle_backward_kernel out x k = Inl UnsupportedScalarType \<and>
         pixel_unshuffle_backward_kernel out x k = Inl UnsupportedScalarType)) \<and>
   (scalar_type y = kBFloat16 \<and> memory_format y = Contiguous \<longrightarrow>
      avg_pool2d_kernel_impl nm sum_junk out' y kW kH dW dH padW padH cip dov =
      cpu_avg_pool (to_float nm) (from_float nm) (float_div nm) False out' y
        kW kH dW dH padW padH cip dov) \<and>
   (scalar_type y = kBFloat16 \<and> memory_format y = ChannelsLast \<longrightarrow>
      avg_pool2d_kernel_impl nm sum_junk out' y kW kH dW dH padW padH cip dov =
      cpu_avg_pool_channels_last_bfloat16 (to_float nm) (from_float nm) (float_div nm) sum_junk
        out' y kW kH dW dH padW padH cip dov) \<and>
   (scalar_type y = kLong \<and> memory_format y = Contiguous \<longrightarrow>
      avg_pool2d_kernel_impl nm sum_junk out' y kW kH dW dH padW padH cip dov =
      cpu_avg_pool (\<lambda>v. v) (\<lambda>v. v) (scalar_div nm) True out' y
        kW kH dW dH padW padH cip dov) \<and>
   (scalar_type y = kLong \<and> memory_format y = ChannelsLast \<longrightarrow>
      avg_pool2d_kernel_impl nm sum_junk out' y kW kH dW dH padW padH cip dov =
      cpu_avg_pool_channels_last (scalar_div nm) True out' y
        kW kH dW dH padW padH cip dov) \<and>
   ((scalar_type y = kBFloat16 \<or> scalar_type y = kLong) \<and>
    (memory_format y = Contiguous \<or> memory_format y = ChannelsLast) \<longrightarrow>
      avg_pool2d_backward_kernel_impl nm out' y kW kH dW dH padW padH cip dov =
      (if memory_format y = Contiguous
       then cpu_avg_pool_backward (scalar_div nm) (scalar_type y = kLong) out' y
              kW kH dW dH padW padH cip dov
       else cpu_avg_pool_backward_channels_last (scalar_div nm) (scalar_type y = kLong) out' y
              kW kH dW dH padW padH cip dov))"
proof (intro conjI impI)
  assume a: "scalar_type x \<noteq> kFloat \<and> scalar_type x \<noteq> kDouble"
  then have nf: "scalar_type x \<noteq> kFloat" "scalar_type x \<noteq> kDouble" by simp_all
  have c: "scalar_type (contiguous x (suggest_memory_format x)) \<noteq> kFloat"
    "scalar_type (contiguous x (suggest_memory_format x)) \<noteq> kDouble"
    using nf by simp_all
  show "isl (pixel_shuffle grad_mode junk x F)"
    using not_float_rejected(1)[OF c]
    by (simp add: pixel_shuffle_def PixelShuffleOp_forward_def PixelShuffleOp__forward_def
        pixel_shuffle_cpu_def Let_def)
  show "isl (pixel_unshuffle grad_mode junk x F)"
    using not_float_rejected(2)[OF c]
    by (simp add: pixel_unshuffle_def PixelUnshuffleOp_forward_def PixelUnshuffleOp__forward_def
        pixel_unshuffle_cpu_def Let_def)
  show "isl (PixelShuffleOp_backward junk ctx x)"
    using not_float_rejected(3)[OF c]
    by (simp add: PixelShuffleOp_backward_def pixel_shuffle_backward_cpu_def Let_def)
  show "isl (PixelUnshuffleOp_backward junk ctx x)"
    using not_float_rejected(4)[OF c]
    by (simp add: PixelUnshuffleOp_backward_def pixel_unshuffle_backward_cpu_def Let_def)
  assume l: "memory_format x = Contiguous \<or> memory_format x = ChannelsLast"
  show "pixel_shuffle_kernel out x k = Inl UnsupportedScalarType"
    using nf l by (auto simp add: pixel_shuffle_kernel_def suggest_memory_format_def
        AT_DISPATCH_FLOATING_TYPES_def)
  show "pixel_unshuffle_kernel out x k = Inl UnsupportedScalarType"
    using nf l by (auto simp add: pixel_unshuffle_kernel_def suggest_memory_format_def
        AT_DISPATCH_FLOATING_TYPES_def)
  show "pixel_shuffle_backward_kernel out x k = Inl UnsupportedScalarType"
    using nf l by (auto simp add: pixel_shuffle_backward_kernel_def suggest_memory_format_def
        AT_DISPATCH_FLOATING_TYPES_def)
  show "pixel_unshuffle_backward_kernel out x k = Inl UnsupportedScalarType"
    using nf l by (auto simp add: pixel_unshuffle_backward_kernel_def suggest_memory_format_def
        AT_DISPATCH_FLOATING_TYPES_def)
next
  assume "scalar_type y = kBFloat16 \<and> memory_format y = Contiguous"
  then show "avg_pool2d_kernel_impl nm sum_junk out' y kW kH dW dH padW padH cip dov =
      cpu_avg_pool (to_float nm) (from_float nm) (float_div nm) False out' y
        kW kH dW dH padW padH cip dov"
    by (simp add: avg_pool2d_kernel_impl_def suggest_memory_format_def
        AT_DISPATCH_FLOATING_TYPES_AND2_def)
next
  assume "scalar_type y = kBFloat16 \<and> memory_format y = ChannelsLast"
  then show "avg_pool2d_kernel_impl nm sum_junk out' y kW kH dW dH padW padH cip dov =
      cpu_avg_pool_channels_last_bfloat16 (to_float nm) (from_float nm) (float_div nm) sum_junk
        out' y kW kH dW dH padW padH cip dov"
    by (simp add: avg_pool2d_kernel_impl_def suggest_memory_format_def
        AT_DISPATCH_FLOATING_TYPES_AND2_def)
next
  assume "scalar_type y = kLong \<and> memory_format y = Contiguous"
  then show "avg_pool2d_kernel_impl nm sum_junk out' y kW kH dW dH padW padH cip dov =
      cpu_avg_pool (\<lambda>v. v) (\<lambda>v. v) (scalar_div nm) True out' y
        kW kH dW dH padW padH cip dov"
    by (simp add: avg_pool2d_kernel_impl_def suggest_memory_format_def
        AT_DISPATCH_FLOATING_TYPES_AND2_def)
next
  assume "scalar_type y = kLong \<and> memory_format y = ChannelsLast"
  then show "avg_pool2d_kernel_impl nm sum_junk out' y kW kH dW dH padW padH cip dov =
      cpu_avg_pool_channels_last (scalar_div nm) True out' y
        kW kH dW dH padW padH cip dov"
    by (simp add: avg_pool2d_kernel_impl_def suggest_memory_format_def
        AT_DISPATCH_FLOATING_TYPES_AND2_def)
next
  assume "(scalar_type y = kBFloat16 \<or> scalar_type y = kLong) \<and>
    (memory_format y = Contiguous \<or> memory_format y = ChannelsLast)"
  then show "avg_pool2d_backward_kernel_impl nm out' y kW kH dW dH padW padH cip dov =
      (if memory_format y = Contiguous
       then cpu_avg_pool_backward (scalar_div nm) (scalar_type y = kLong) out' y
              kW kH dW dH padW padH cip dov
       else cpu_avg_pool_backward_channels_last (scalar_div nm) (scalar_type y = kLong) out' y
              kW kH dW dH padW padH cip dov)"
    by (auto simp add: avg_pool2d_backward_kernel_impl_def suggest_memory_format_def
        AT_DISPATCH_FLOATING_TYPES_AND2_def)
qed

lemma bfloat16_is_pooled:
  "avg_pool2d_out_cpu exact_numerics stale stale
     (ex_tensor Contiguous kBFloat16 [1, 1, 1] [5]) [1] [] [0] False True None =
   Inr (ex_tensor Contiguous kBFloat16 [1, 1, 1] [5])"
proof -
  let ?out = "empty_resized stale kBFloat16 [1, 1, 1] Contiguous"
  let ?in = "ex_tensor Contiguous kBFloat16 [1, 1, 1] [5 :: rat]"
  have e: "avg_pool2d_out_cpu exact_numerics stale stale ?in [1] [] [0] False True None =
     cpu_avg_pool (\<lambda>x. x) (\<lambda>x. x) (\<lambda>x d. x / of_int d) False ?out ?in 1 1 1 1 0 0 True None"
    by (simp add: entry_eval)
  have k: "cpu_avg_pool (\<lambda>x. x) (\<lambda>x. x) (\<lambda>x d. x / of_int d) False ?out ?in 1 1 1 1 0 0 True None =
      Inr (?out\<lparr>data := map (\<lambda>i. avg_pool_value (\<lambda>x. x) (\<lambda>x. x) (\<lambda>x d. x / of_int d) (data ?in)
             (int (size_at ?in (- 2))) (int (size_at ?in (- 1))) 1 1 1 1 0 0 True None
             ((i div size_at ?out (- 1) div size_at ?out (- 2)) mod
                (if ndimension ?in = 3 then size_at ?in 0 else size_at ?in 0 * size_at ?in 1))
             ((i div size_at ?out (- 1)) mod size_at ?out (- 2)) (i mod size_at ?out (- 1)))
           [0..<numel ?out]\<rparr>)"
    by (rule cpu_avg_pool_closed) (simp_all add: tensor_eval avg_pool_traps_def)
  show ?thesis
    unfolding e k
    by (simp add: tensor_eval value_eval upto_unfold)
qed

theorem shuffle_dispatch_floats_only_witness:
  "scalar_type (ex_tensor Contiguous kBFloat16 [1, 1, 1] [5 :: rat]) \<noteq> kFloat \<and>
   scalar_type (ex_tensor Contiguous kBFloat16 [1, 1, 1] [5 :: rat]) \<noteq> kDouble \<and>
   isl (pixel_shuffle False stale (ex_tensor Contiguous kBFloat16 [1, 1, 1] [5]) 1) \<and>
   pixel_shuffle_kernel (ex_tensor Contiguous kBFloat16 [1, 1, 1] [0])
     (ex_tensor Contiguous kBFloat16 [1, 1, 1] [5 :: rat]) 1 = Inl UnsupportedScalarType \<and>
   avg_pool2d_out_cpu exact_numerics stale stale
     (ex_tensor Contiguous kBFloat16 [1, 1, 1] [5]) [1] [] [0] False True None =
   Inr (ex_tensor Contiguous kBFloat16 [1, 1, 1] [5])"
  using shuffle_dispatch_floats_only[where x = "ex_tensor Contiguous kBFloat16 [1, 1, 1] [5 :: rat]"
      and grad_mode = False and junk = stale and F = 1 and k = 1
      and out = "ex_tensor Contiguous kBFloat16 [1, 1, 1] [0]", THEN conjunct1]
    bfloat16_is_pooled
  by (simp add: ex_tensor_def)


section \<open>The permutation of pixel shuffle\<close>

subsection \<open>Coordinates and offsets\<close>

lemma row_major_Nil [simp]: "row_major [] [] = 0"
  by (simp add: row_major_def)

lemma foldl_row_major_shift:
  fixes a :: nat
  shows "length xs = length Xs \<Longrightarrow>
   foldl (\<lambda>acc (x, X). acc * X + x) a (zip xs Xs) =
   a * prod_list Xs + foldl (\<lambda>acc (x, X). acc * X + x) 0 (zip xs Xs)"
proof (induction xs Xs arbitrary: a rule: list_induct2)
  case Nil
  then show ?case by simp
next
  case (Cons x xs X Xs)
  show ?case
    using Cons.IH[of "a * X + x"] Cons.IH[of x] by (simp add: algebra_simps)
qed

lemma row_major_Cons:
  assumes "length xs = length Xs"
  shows "row_major (X # Xs) (x # xs) = x * prod_list Xs + row_major Xs xs"
  using foldl_row_major_shift[OF assms, of x] by (simp add: row_major_def)

lemma row_major_data_index_init:
  "row_major exts (snd (data_index_init i exts)) + fst (data_index_init i exts) * prod_list exts = i"
proof (induction exts)
  case Nil
  then show ?case by simp
next
  case (Cons X Xs)
  obtain q ds where a: "data_index_init i Xs = (q, ds)" by (cases "data_index_init i Xs")
  have l: "length ds = length Xs" using length_data_index_init[of i Xs] by (simp add: a)
  have ih: "row_major Xs ds + q * prod_list Xs = i" using Cons by (simp add: a)
  have "(q mod X) * prod_list Xs + (q div X) * (X * prod_list Xs) = q * prod_list Xs"
    by (metis add.commute distrib_right mult.assoc mult.commute mult_div_mod_eq)
  then show ?case
    using ih by (simp add: a row_major_Cons[OF l] algebra_simps)
qed

lemma fst_data_index_init:
  "\<forall>X\<in>set exts. 0 < X \<Longrightarrow> fst (data_index_init i exts) = i div prod_list exts"
proof (induction exts)
  case Nil
  then show ?case by simp
next
  case (Cons X Xs)
  then have "fst (data_index_init i Xs) = i div prod_list Xs" by simp
  moreover have "i div prod_list Xs div X = i div (X * prod_list Xs)"
    by (simp add: div_mult2_eq[symmetric] mult.commute)
  ultimately show ?case
    by (simp add: case_prod_beta Let_def)
qed

lemma row_major_decode:
  assumes "\<forall>X\<in>set exts. 0 < X" "i < prod_list exts"
  shows "row_major exts (snd (data_index_init i exts)) = i"
  using row_major_data_index_init[of exts i] fst_data_index_init[OF assms(1), of i] assms(2)
  by simp

lemma data_index_init_bounded:
  assumes "\<forall>X\<in>set exts. 0 < X"
  shows "list_all2 (<) (snd (data_index_init i exts)) exts"
  using assms by (induction exts) (auto simp: case_prod_beta Let_def)

lemma data_index_init_row_major:
  assumes "list_all2 (<) idx exts"
  shows "data_index_init (row_major exts idx + a * prod_list exts) exts = (a, idx)"
  using assms
proof (induction idx exts arbitrary: a rule: list_all2_induct)
  case Nil
  then show ?case by simp
next
  case (Cons x xs X Xs)
  have l: "length xs = length Xs" using Cons.hyps(2) by (rule list_all2_lengthD)
  have e: "row_major (X # Xs) (x # xs) + a * prod_list (X # Xs) =
           row_major Xs xs + (x + a * X) * prod_list Xs"
    by (simp add: row_major_Cons[OF l] algebra_simps)
  show ?case
    unfolding e using Cons.IH[of "x + a * X"] Cons.hyps(1) by simp
qed

lemma decode_row_major:
  assumes "list_all2 (<) idx exts"
  shows "snd (data_index_init (row_major exts idx) exts) = idx"
  using data_index_init_row_major[OF assms, of 0] by simp

lemma row_major_less:
  assumes "list_all2 (<) idx exts"
  shows "row_major exts idx < prod_list exts"
  using assms
proof (induction idx exts rule: list_all2_induct)
  case Nil
  then show ?case by simp
next
  case (Cons x xs X Xs)
  have l: "length xs = length Xs" using Cons.hyps(2) by (rule list_all2_lengthD)
  have "x * prod_list Xs + row_major Xs xs < Suc x * prod_list Xs" using Cons.IH by simp
  also have "\<dots> \<le> X * prod_list Xs" using Cons.hyps(1) by (intro mult_le_mono1) simp
  finally show ?case by (simp add: row_major_Cons[OF l])
qed

subsection \<open>A kernel that gathers\<close>

lemma gather_loop:
  assumes pos: "0 < m \<Longrightarrow> \<forall>X\<in>set exts. 0 < X"
    and len: "length dst = m"
    and inr: "\<And>i. i < m \<Longrightarrow> off (snd (data_index_init i exts)) < length src"
  shows "parallel_for 0 m
           (\<lambda>begin end. index_loop (\<lambda>i idx. copy_element src (off idx) i)
                          exts begin end (snd (data_index_init begin exts))) dst =
         Inr (map (\<lambda>i. src ! off (snd (data_index_init i exts))) [0..<m])"
proof (cases "0 < m")
  case False
  then show ?thesis using len by (simp add: parallel_for_def)
next
  case True
  have "for_each [0..<m] (\<lambda>i. copy_element src (off (snd (data_index_init i exts))) i) dst =
        Inr (map (\<lambda>i. src ! off (snd (data_index_init i exts))) [0..<m])"
    using len
  proof (rule for_each_fill_all[rotated])
    fix i and s :: "'a list"
    assume "i < m" "length s = m"
    then show "copy_element src (off (snd (data_index_init i exts))) i s =
               Inr (s[i := src ! off (snd (data_index_init i exts))])"
      using inr by (simp add: copy_element_def)
  qed
  then show ?thesis
    using True by (simp only: parallel_for_def if_True index_loop_for_each[OF pos[OF True]])
qed


lemma bounded6:
  "list_all2 (<) idx [A, B, C, D, E, F] =
   (\<exists>a b c d e f. idx = [a, b, c, d, e, f] \<and> a < A \<and> b < B \<and> c < C \<and> d < D \<and> e < E \<and> f < (F::nat))"
  by (auto simp add: list_all2_Cons2)

lemma row_major6:
  "row_major [A, B, C, D, E, F] [a, b, c, d, e, f] =
   ((((a * B + b) * C + c) * D + d) * E + e) * F + f"
  by (simp add: row_major_def)

lemma gather_inverse:
  assumes pos: "\<forall>X\<in>set E1. 0 < X" "\<forall>X\<in>set E2. 0 < X"
    and m: "prod_list E1 = m" "prod_list E2 = m" "length src = m"
    and pq: "\<And>idx. list_all2 (<) idx E2 \<Longrightarrow> list_all2 (<) (q idx) E1 \<and> p (q idx) = idx"
  shows "map (\<lambda>j. map (\<lambda>i. src ! row_major E2 (p (snd (data_index_init i E1)))) [0..<m] !
                   row_major E1 (q (snd (data_index_init j E2)))) [0..<m] = src"
proof (rule nth_equalityI)
  show "length (map (\<lambda>j. map (\<lambda>i. src ! row_major E2 (p (snd (data_index_init i E1)))) [0..<m] !
                   row_major E1 (q (snd (data_index_init j E2)))) [0..<m]) = length src"
    using m by simp
next
  fix j
  assume "j < length (map (\<lambda>j. map (\<lambda>i. src ! row_major E2 (p (snd (data_index_init i E1)))) [0..<m] !
                   row_major E1 (q (snd (data_index_init j E2)))) [0..<m])"
  then have j: "j < m" by simp
  let ?idx = "snd (data_index_init j E2)"
  have b: "list_all2 (<) ?idx E2" by (rule data_index_init_bounded[OF pos(2)])
  note q = pq[OF b]
  have k: "row_major E1 (q ?idx) < m" using row_major_less[of "q ?idx" E1] q m by simp
  have d: "snd (data_index_init (row_major E1 (q ?idx)) E1) = q ?idx"
    using decode_row_major[of "q ?idx" E1] q by simp
  have r: "row_major E2 ?idx = j" using row_major_decode[OF pos(2), of j] j m by simp
  show "map (\<lambda>j. map (\<lambda>i. src ! row_major E2 (p (snd (data_index_init i E1)))) [0..<m] !
                   row_major E1 (q (snd (data_index_init j E2)))) [0..<m] ! j = src ! j"
    using j k by (simp add: d q r)
qed

subsection \<open>The packed kernels as gathers\<close>

lemma numel_last3:
  assumes "sizes t = bs @ [c, h, w]"
  shows "numel t = prod_list bs * (c * h * w)"
  by (simp add: numel_def assms mult.assoc)

lemma cpu_pixel_shuffle_closed:
  assumes sz: "sizes input = bs @ [sub * S * S, H, W]"
    and nz: "sub * S * S * H * W \<noteq> 0"
    and len: "length (data input) = numel input" "length (data output) = numel input"
  shows "cpu_pixel_shuffle output input S =
         Inr (output\<lparr>data := map (\<lambda>i. data input !
                 row_major [prod_list bs, sub, S, S, H, W]
                   (case snd (data_index_init i [prod_list bs, sub, H, S, W, S]) of
                      [n, c, h, s1, w, s2] \<Rightarrow> [n, c, s1, s2, h, w] | _ \<Rightarrow> []))
               [0..<numel input]\<rparr>)"
proof -
  let ?N = "prod_list bs"
  let ?E1 = "[?N, sub, H, S, W, S]"
  let ?E2 = "[?N, sub, S, S, H, W]"
  let ?off = "\<lambda>idx. case idx of
                   [n, c, h, s1, w, s2] \<Rightarrow>
                     n * (sub * S * S * H * W) + c * (S * S * H * W) + s1 * (S * H * W) +
                     s2 * (H * W) + h * W + w * 1
                 | _ \<Rightarrow> (0::nat)"
  let ?p = "\<lambda>idx. case idx of [n, c, h, s1, w, s2] \<Rightarrow> [n, c, s1, s2, h, (w::nat)] | _ \<Rightarrow> []"
  from nz have p: "0 < sub" "0 < S" "0 < H" "0 < W" by simp_all
  have ne: "numel input = ?N * (sub * S * S * H * W)" by (rule numel_last3[OF sz])
  have sc: "sub * S * S div (S * S) = sub" using p by (simp add: mult.assoc)
  have nb: "numel input div (sub * S * S * H * W) = ?N" using nz unfolding ne by simp
  have pr: "prod_list ?E2 = numel input" unfolding ne by (simp add: algebra_simps)
  have allpos: "\<forall>X\<in>set ?E1. 0 < X" if "i < numel input" for i
  proof -
    have "0 < ?N" using that unfolding ne by (cases "?N = 0") simp_all
    then show ?thesis using p by simp
  qed
  have offp: "?off idx = row_major ?E2 (?p idx) \<and> list_all2 (<) (?p idx) ?E2"
    if "list_all2 (<) idx ?E1" for idx
  proof -
    from that obtain n c h s1 w s2 where i: "idx = [n, c, h, s1, w, s2]"
      and b: "n < ?N" "c < sub" "h < H" "s1 < S" "w < W" "s2 < S"
      unfolding bounded6 by blast
    show ?thesis using b by (simp add: i row_major6 algebra_simps)
  qed
  have g: "parallel_for 0 (numel input)
           (\<lambda>begin end. index_loop (\<lambda>i idx. copy_element (data input) (?off idx) i)
                          ?E1 begin end (snd (data_index_init begin ?E1))) (data output) =
         Inr (map (\<lambda>i. data input ! ?off (snd (data_index_init i ?E1))) [0..<numel input])"
  proof (rule gather_loop)
    assume "0 < numel input"
    then show "\<forall>X\<in>set ?E1. 0 < X" by (rule allpos)
  next
    show "length (data output) = numel input" by (rule len(2))
  next
    fix i assume i: "i < numel input"
    then have "\<forall>X\<in>set ?E1. 0 < X" by (rule allpos)
    then have "list_all2 (<) (snd (data_index_init i ?E1)) ?E1"
      by (rule data_index_init_bounded)
    from offp[OF this] show "?off (snd (data_index_init i ?E1)) < length (data input)"
      using row_major_less[of "?p (snd (data_index_init i ?E1))" ?E2] pr len(1) by simp
  qed
  have e: "map (\<lambda>i. data input ! ?off (snd (data_index_init i ?E1))) [0..<numel input] =
           map (\<lambda>i. data input ! row_major ?E2 (?p (snd (data_index_init i ?E1)))) [0..<numel input]"
  proof (rule map_cong[OF refl])
    fix i assume "i \<in> set [0..<numel input]"
    then have "i < numel input" by simp
    then have "\<forall>X\<in>set ?E1. 0 < X" by (rule allpos)
    then have "list_all2 (<) (snd (data_index_init i ?E1)) ?E1"
      by (rule data_index_init_bounded)
    from offp[OF this]
    show "data input ! ?off (snd (data_index_init i ?E1)) =
          data input ! row_major ?E2 (?p (snd (data_index_init i ?E1)))" by simp
  qed
  show ?thesis
    unfolding cpu_pixel_shuffle_def Let_def size_at_last3[OF sz] sc nb
    using nz p by (simp only: g e store_def sum.case mult_eq_0_iff if_False) simp
qed


lemma cpu_pixel_shuffle_backward_closed:
  assumes sz: "sizes grad_input = bs @ [sub * S * S, H, W]"
    and nz: "sub * S * S * H * W \<noteq> 0"
    and len: "length (data grad_output) = numel grad_input"
      "length (data grad_input) = numel grad_input"
  shows "cpu_pixel_shuffle_backward grad_input grad_output S =
         Inr (grad_input\<lparr>data := map (\<lambda>i. data grad_output !
                 row_major [prod_list bs, sub, H, S, W, S]
                   (case snd (data_index_init i [prod_list bs, sub, S, S, H, W]) of
                      [n, c, s1, s2, h, w] \<Rightarrow> [n, c, h, s1, w, s2] | _ \<Rightarrow> []))
               [0..<numel grad_input]\<rparr>)"
proof -
  let ?N = "prod_list bs"
  let ?E1 = "[?N, sub, S, S, H, W]"
  let ?E2 = "[?N, sub, H, S, W, S]"
  let ?off = "\<lambda>idx. case idx of
                   [n, c, s1, s2, h, w] \<Rightarrow>
                     n * (sub * S * S * H * W) + c * (H * S * W * S) + h * (S * W * S) +
                     s1 * (W * S) + w * S + s2 * 1
                 | _ \<Rightarrow> (0::nat)"
  let ?p = "\<lambda>idx. case idx of [n, c, s1, s2, h, w] \<Rightarrow> [n, c, h, s1, w, (s2::nat)] | _ \<Rightarrow> []"
  from nz have p: "0 < sub" "0 < S" "0 < H" "0 < W" by simp_all
  have ne: "numel grad_input = ?N * (sub * S * S * H * W)" by (rule numel_last3[OF sz])
  have sc: "sub * S * S div (S * S) = sub" using p by (simp add: mult.assoc)
  have nb: "numel grad_input div (sub * S * S * H * W) = ?N" using nz unfolding ne by simp
  have pr: "prod_list ?E2 = numel grad_input" unfolding ne by (simp add: algebra_simps)
  have allpos: "\<forall>X\<in>set ?E1. 0 < X" if "i < numel grad_input" for i
  proof -
    have "0 < ?N" using that unfolding ne by (cases "?N = 0") simp_all
    then show ?thesis using p by simp
  qed
  have offp: "?off idx = row_major ?E2 (?p idx) \<and> list_all2 (<) (?p idx) ?E2"
    if "list_all2 (<) idx ?E1" for idx
  proof -
    from that obtain n c s1 s2 h w where i: "idx = [n, c, s1, s2, h, w]"
      and b: "n < ?N" "c < sub" "s1 < S" "s2 < S" "h < H" "w < W"
      unfolding bounded6 by blast
    show ?thesis using b by (simp add: i row_major6 algebra_simps)
  qed
  have g: "parallel_for 0 (numel grad_input)
           (\<lambda>begin end. index_loop (\<lambda>i idx. copy_element (data grad_output) (?off idx) i)
                          ?E1 begin end (snd (data_index_init begin ?E1))) (data grad_input) =
         Inr (map (\<lambda>i. data grad_output ! ?off (snd (data_index_init i ?E1))) [0..<numel grad_input])"
  proof (rule gather_loop)
    assume "0 < numel grad_input"
    then show "\<forall>X\<in>set ?E1. 0 < X" by (rule allpos)
  next
    show "length (data grad_input) = numel grad_input" by (rule len(2))
  next
    fix i assume i: "i < numel grad_input"
    then have "\<forall>X\<in>set ?E1. 0 < X" by (rule allpos)
    then have "list_all2 (<) (snd (data_index_init i ?E1)) ?E1"
      by (rule data_index_init_bounded)
    from offp[OF this] show "?off (snd (data_index_init i ?E1)) < length (data grad_output)"
      using row_major_less[of "?p (snd (data_index_init i ?E1))" ?E2] pr len(1) by simp
  qed
  have e: "map (\<lambda>i. data grad_output ! ?off (snd (data_index_init i ?E1))) [0..<numel grad_input] =
           map (\<lambda>i. data grad_output ! row_major ?E2 (?p (snd (data_index_init i ?E1))))
             [0..<numel grad_input]"
  proof (rule map_cong[OF refl])
    fix i assume "i \<in> set [0..<numel grad_input]"
    then have "i < numel grad_input" by simp
    then have "\<forall>X\<in>set ?E1. 0 < X" by (rule allpos)
    then have "list_all2 (<) (snd (data_index_init i ?E1)) ?E1"
      by (rule data_index_init_bounded)
    from offp[OF this]
    show "data grad_output ! ?off (snd (data_index_init i ?E1)) =
          data grad_output ! row_major ?E2 (?p (snd (data_index_init i ?E1)))" by simp
  qed
  show ?thesis
    unfolding cpu_pixel_shuffle_backward_def Let_def size_at_last3[OF sz] sc nb
    using nz p by (simp only: g e store_def sum.case mult_eq_0_iff if_False) simp
qed

subsection \<open>The channels-last kernels as gathers\<close>

lemma size_at4:
  assumes "sizes t = [a, b, c, d]"
  shows "size_at t 0 = a" "size_at t 1 = b" "size_at t 2 = c" "size_at t 3 = d"
    "ndimension t = 4" "numel t = a * b * c * d"
  using assms by (simp_all add: size_at_def ndimension_def numel_def mult.assoc)

lemma cpu_pixel_shuffle_channels_last_closed:
  assumes sz: "sizes input = [N, sub * S * S, H, W]"
    and S: "0 < S"
    and len: "length (data input) = numel input" "length (data output) = numel input"
  shows "cpu_pixel_shuffle_channels_last output input S =
         Inr (output\<lparr>data := map (\<lambda>i. data input !
                 row_major [N, H, W, sub, S, S]
                   (case snd (data_index_init i [N, H, S, W, S, sub]) of
                      [n, h, s1, w, s2, c] \<Rightarrow> [n, h, w, c, s1, s2] | _ \<Rightarrow> []))
               [0..<numel input]\<rparr>)"
proof -
  let ?E1 = "[N, H, S, W, S, sub]"
  let ?E2 = "[N, H, W, sub, S, S]"
  let ?off = "\<lambda>idx. case idx of
                   [n, h, s1, w, s2, c] \<Rightarrow>
                     n * (H * W * (sub * S * S)) + h * (W * (sub * S * S)) + w * (sub * S * S) +
                     c * (S * S) + s1 * S + s2 * 1
                 | _ \<Rightarrow> (0::nat)"
  let ?p = "\<lambda>idx. case idx of [n, h, s1, w, s2, c] \<Rightarrow> [n, h, w, c, s1, (s2::nat)] | _ \<Rightarrow> []"
  note s4 = size_at4[OF sz]
  have ne: "numel input = N * (sub * S * S) * H * W" by (rule s4(6))
  have sc: "sub * S * S div (S * S) = sub" using S by (simp add: mult.assoc)
  have pr: "prod_list ?E2 = numel input" unfolding ne by (simp add: algebra_simps)
  have allpos: "\<forall>X\<in>set ?E1. 0 < X" if "i < numel input" for i
  proof -
    have "N * (sub * S * S) * H * W \<noteq> 0" using that unfolding ne by (rule gr_implies_not0)
    then show ?thesis by simp
  qed
  have offp: "?off idx = row_major ?E2 (?p idx) \<and> list_all2 (<) (?p idx) ?E2"
    if "list_all2 (<) idx ?E1" for idx
  proof -
    from that obtain n h s1 w s2 c where i: "idx = [n, h, s1, w, s2, c]"
      and b: "n < N" "h < H" "s1 < S" "w < W" "s2 < S" "c < sub"
      unfolding bounded6 by blast
    show ?thesis using b by (simp add: i row_major6 algebra_simps)
  qed
  have g: "parallel_for 0 (numel input)
           (\<lambda>begin end. index_loop (\<lambda>i idx. copy_element (data input) (?off idx) i)
                          ?E1 begin end (snd (data_index_init begin ?E1))) (data output) =
         Inr (map (\<lambda>i. data input ! ?off (snd (data_index_init i ?E1))) [0..<numel input])"
  proof (rule gather_loop)
    assume "0 < numel input"
    then show "\<forall>X\<in>set ?E1. 0 < X" by (rule allpos)
  next
    show "length (data output) = numel input" by (rule len(2))
  next
    fix i assume i: "i < numel input"
    then have "\<forall>X\<in>set ?E1. 0 < X" by (rule allpos)
    then have "list_all2 (<) (snd (data_index_init i ?E1)) ?E1"
      by (rule data_index_init_bounded)
    from offp[OF this] show "?off (snd (data_index_init i ?E1)) < length (data input)"
      using row_major_less[of "?p (snd (data_index_init i ?E1))" ?E2] pr len(1) by simp
  qed
  have e: "map (\<lambda>i. data input ! ?off (snd (data_index_init i ?E1))) [0..<numel input] =
           map (\<lambda>i. data input ! row_major ?E2 (?p (snd (data_index_init i ?E1)))) [0..<numel input]"
  proof (rule map_cong[OF refl])
    fix i assume "i \<in> set [0..<numel input]"
    then have "i < numel input" by simp
    then have "\<forall>X\<in>set ?E1. 0 < X" by (rule allpos)
    then have "list_all2 (<) (snd (data_index_init i ?E1)) ?E1"
      by (rule data_index_init_bounded)
    from offp[OF this]
    show "data input ! ?off (snd (data_index_init i ?E1)) =
          data input ! row_major ?E2 (?p (snd (data_index_init i ?E1)))" by simp
  qed
  show ?thesis
    unfolding cpu_pixel_shuffle_channels_last_def Let_def s4(1-5) sc
    using S by (simp only: g e store_def sum.case mult_eq_0_iff if_False) simp
qed

lemma cpu_pixel_shuffle_backward_channels_last_closed:
  assumes sz: "sizes grad_input = [N, sub * S * S, H, W]"
    and S: "0 < S"
    and nd: "ndimension grad_output = 4"
    and len: "length (data grad_output) = numel grad_input"
      "length (data grad_input) = numel grad_input"
  shows "cpu_pixel_shuffle_backward_channels_last grad_input grad_output S =
         Inr (grad_input\<lparr>data := map (\<lambda>i. data grad_output !
                 row_major [N, H, S, W, S, sub]
                   (case snd (data_index_init i [N, H, W, sub, S, S]) of
                      [n, h, w, c, s1, s2] \<Rightarrow> [n, h, s1, w, s2, c] | _ \<Rightarrow> []))
               [0..<numel grad_input]\<rparr>)"
proof -
  let ?E1 = "[N, H, W, sub, S, S]"
  let ?E2 = "[N, H, S, W, S, sub]"
  let ?off = "\<lambda>idx. case idx of
                   [n, h, w, c, s1, s2] \<Rightarrow>
                     n * (H * W * (sub * S * S)) + h * (S * W * S * sub) + s1 * (W * S * sub) +
                     w * (S * sub) + s2 * sub + c * 1
                 | _ \<Rightarrow> (0::nat)"
  let ?p = "\<lambda>idx. case idx of [n, h, w, c, s1, s2] \<Rightarrow> [n, h, s1, w, s2, (c::nat)] | _ \<Rightarrow> []"
  note s4 = size_at4[OF sz]
  have ne: "numel grad_input = N * (sub * S * S) * H * W" by (rule s4(6))
  have sc: "sub * S * S div (S * S) = sub" using S by (simp add: mult.assoc)
  have pr: "prod_list ?E2 = numel grad_input" unfolding ne by (simp add: algebra_simps)
  have allpos: "\<forall>X\<in>set ?E1. 0 < X" if "i < numel grad_input" for i
  proof -
    have "N * (sub * S * S) * H * W \<noteq> 0" using that unfolding ne by (rule gr_implies_not0)
    then show ?thesis by simp
  qed
  have offp: "?off idx = row_major ?E2 (?p idx) \<and> list_all2 (<) (?p idx) ?E2"
    if "list_all2 (<) idx ?E1" for idx
  proof -
    from that obtain n h w c s1 s2 where i: "idx = [n, h, w, c, s1, s2]"
      and b: "n < N" "h < H" "w < W" "c < sub" "s1 < S" "s2 < S"
      unfolding bounded6 by blast
    show ?thesis using b by (simp add: i row_major6 algebra_simps)
  qed
  have g: "parallel_for 0 (numel grad_input)
           (\<lambda>begin end. index_loop (\<lambda>i idx. copy_element (data grad_output) (?off idx) i)
                          ?E1 begin end (snd (data_index_init begin ?E1))) (data grad_input) =
         Inr (map (\<lambda>i. data grad_output ! ?off (snd (data_index_init i ?E1))) [0..<numel grad_input])"
  proof (rule gather_loop)
    assume "0 < numel grad_input"
    then show "\<forall>X\<in>set ?E1. 0 < X" by (rule allpos)
  next
    show "length (data grad_input) = numel grad_input" by (rule len(2))
  next
    fix i assume i: "i < numel grad_input"
    then have "\<forall>X\<in>set ?E1. 0 < X" by (rule allpos)
    then have "list_all2 (<) (snd (data_index_init i ?E1)) ?E1"
      by (rule data_index_init_bounded)
    from offp[OF this] show "?off (snd (data_index_init i ?E1)) < length (data grad_output)"
      using row_major_less[of "?p (snd (data_index_init i ?E1))" ?E2] pr len(1) by simp
  qed
  have e: "map (\<lambda>i. data grad_output ! ?off (snd (data_index_init i ?E1))) [0..<numel grad_input] =
           map (\<lambda>i. data grad_output ! row_major ?E2 (?p (snd (data_index_init i ?E1))))
             [0..<numel grad_input]"
  proof (rule map_cong[OF refl])
    fix i assume "i \<in> set [0..<numel grad_input]"
    then have "i < numel grad_input" by simp
    then have "\<forall>X\<in>set ?E1. 0 < X" by (rule allpos)
    then have "list_all2 (<) (snd (data_index_init i ?E1)) ?E1"
      by (rule data_index_init_bounded)
    from offp[OF this]
    show "data grad_output ! ?off (snd (data_index_init i ?E1)) =
          data grad_output ! row_major ?E2 (?p (snd (data_index_init i ?E1)))" by simp
  qed
  show ?thesis
    unfolding cpu_pixel_shuffle_backward_channels_last_def Let_def s4(1-5) sc
    using S nd by (simp only: g e store_def sum.case mult_eq_0_iff if_False) simp
qed


subsection \<open>The operations on whole tensors, packed\<close>

lemma div_div_square:
  fixes sub S :: nat
  assumes "0 < S"
  shows "sub * S * S div S div S = sub"
  using assms by simp

lemma pixel_shuffle_cpu_packed:
  assumes sz: "sizes x = bs @ [sub * S * S, H, W]"
    and nz: "sub * S * S * H * W \<noteq> 0"
    and len: "length (data x) = numel x"
    and fmt: "memory_format x = Contiguous"
    and st: "scalar_type x = kFloat \<or> scalar_type x = kDouble"
  shows "pixel_shuffle_cpu junk x S =
         Inr \<lparr>sizes = bs @ [sub, H * S, W * S], memory_format = Contiguous,
              scalar_type = scalar_type x,
              data = map (\<lambda>i. data x !
                 row_major [prod_list bs, sub, S, S, H, W]
                   (case snd (data_index_init i [prod_list bs, sub, H, S, W, S]) of
                      [n, c, h, s1, w, s2] \<Rightarrow> [n, c, s1, s2, h, w] | _ \<Rightarrow> []))
               [0..<numel x]\<rparr>"
proof -
  from nz have S: "0 < S" by simp
  let ?out = "empty_resized junk (scalar_type x) (bs @ [sub, H * S, W * S]) Contiguous"
  have nd: "\<not> ndimension x < 3" by (simp add: ndimension_def sz)
  have os: "pixel_shuffle_output_sizes x S = bs @ [sub, H * S, W * S]"
    unfolding pixel_shuffle_output_sizes_def size_at_last3[OF sz] div_div_square[OF S] by simp
  have lo: "length (data ?out) = numel x"
    by (simp add: empty_resized_def numel_last3[OF sz] algebra_simps)
  have "pixel_shuffle_cpu junk x S = cpu_pixel_shuffle ?out x S"
    using nd S st
    by (simp add: pixel_shuffle_cpu_def os Let_def suggest_memory_format_def fmt
        pixel_shuffle_kernel_def AT_DISPATCH_FLOATING_TYPES_def)
  then show ?thesis
    unfolding cpu_pixel_shuffle_closed[OF sz nz len lo]
    by (simp add: empty_resized_def)
qed

lemma pixel_unshuffle_cpu_packed:
  assumes sz: "sizes x = bs @ [sub, H * S, W * S]"
    and nz: "sub * S * S * H * W \<noteq> 0"
    and len: "length (data x) = numel x"
    and fmt: "memory_format x = Contiguous"
    and st: "scalar_type x = kFloat \<or> scalar_type x = kDouble"
  shows "pixel_unshuffle_cpu junk x S =
         Inr \<lparr>sizes = bs @ [sub * S * S, H, W], memory_format = Contiguous,
              scalar_type = scalar_type x,
              data = map (\<lambda>i. data x !
                 row_major [prod_list bs, sub, H, S, W, S]
                   (case snd (data_index_init i [prod_list bs, sub, S, S, H, W]) of
                      [n, c, s1, s2, h, w] \<Rightarrow> [n, c, h, s1, w, s2] | _ \<Rightarrow> []))
               [0..<numel x]\<rparr>"
proof -
  from nz have S: "0 < S" by simp
  let ?out = "empty_resized junk (scalar_type x) (bs @ [sub * S * S, H, W]) Contiguous"
  have nd: "\<not> ndimension x < 3" by (simp add: ndimension_def sz)
  have os: "pixel_unshuffle_output_sizes x S = bs @ [sub * S * S, H, W]"
    using S by (simp add: pixel_unshuffle_output_sizes_def size_at_last3[OF sz])
  have so: "sizes ?out = bs @ [sub * S * S, H, W]" by (simp add: empty_resized_def)
  have ne: "numel ?out = numel x"
    unfolding numel_last3[OF so] numel_last3[OF sz] by (simp add: algebra_simps)
  have lo: "length (data ?out) = numel ?out"
    by (simp add: empty_resized_def numel_def)
  have lx: "length (data x) = numel ?out" using len ne by simp
  have "pixel_unshuffle_cpu junk x S = cpu_pixel_shuffle_backward ?out x S"
    using nd S st
    by (simp add: pixel_unshuffle_cpu_def os Let_def suggest_memory_format_def fmt
        pixel_unshuffle_kernel_def AT_DISPATCH_FLOATING_TYPES_def)
  then show ?thesis
    unfolding cpu_pixel_shuffle_backward_closed[OF so nz lx lo] ne
    by (simp add: empty_resized_def)
qed

lemma pixel_round_trip_packed:
  assumes sz: "sizes x = bs @ [sub * S * S, H, W]"
    and nz: "sub * S * S * H * W \<noteq> 0"
    and len: "length (data x) = numel x"
    and fmt: "memory_format x = Contiguous"
    and st: "scalar_type x = kFloat \<or> scalar_type x = kDouble"
  shows "\<exists>y. pixel_shuffle_cpu junk x S = Inr y \<and> sizes y = bs @ [sub, H * S, W * S] \<and>
             pixel_unshuffle_cpu junk' y S = Inr x"
proof -
  let ?N = "prod_list bs"
  let ?E1 = "[?N, sub, H, S, W, S]"
  let ?E2 = "[?N, sub, S, S, H, W]"
  let ?p = "\<lambda>idx. case idx of [n, c, h, s1, w, s2] \<Rightarrow> [n, c, s1, s2, h, (w::nat)] | _ \<Rightarrow> []"
  let ?q = "\<lambda>idx. case idx of [n, c, s1, s2, h, w] \<Rightarrow> [n, c, h, s1, w, (s2::nat)] | _ \<Rightarrow> []"
  let ?m = "numel x"
  let ?G1 = "map (\<lambda>i. data x ! row_major ?E2 (?p (snd (data_index_init i ?E1)))) [0..<?m]"
  let ?y = "\<lparr>sizes = bs @ [sub, H * S, W * S], memory_format = Contiguous,
              scalar_type = scalar_type x, data = ?G1\<rparr>"
  from nz have p: "0 < sub" "0 < S" "0 < H" "0 < W" by simp_all
  have ne: "?m = ?N * (sub * S * S * H * W)" by (rule numel_last3[OF sz])
  have a: "pixel_shuffle_cpu junk x S = Inr ?y"
    by (rule pixel_shuffle_cpu_packed[OF sz nz len fmt st])
  have sy: "sizes ?y = bs @ [sub, H * S, W * S]" by simp
  have "numel ?y = prod_list (bs @ [sub, H * S, W * S])" by (simp add: numel_def)
  then have ny: "numel ?y = ?m" by (simp add: ne algebra_simps)
  have ly: "length (data ?y) = numel ?y" unfolding ny by simp
  have fy: "memory_format ?y = Contiguous" by simp
  have ty: "scalar_type ?y = kFloat \<or> scalar_type ?y = kDouble" using st by simp
  have rt: "map (\<lambda>j. ?G1 ! row_major ?E1 (?q (snd (data_index_init j ?E2)))) [0..<?m] = data x"
  proof (cases "?m = 0")
    case True
    then show ?thesis using len by simp
  next
    case False
    then have N: "0 < ?N" unfolding ne by simp
    show ?thesis
    proof (rule gather_inverse)
      show "\<forall>X\<in>set ?E1. 0 < X" "\<forall>X\<in>set ?E2. 0 < X" using N p by simp_all
      show "prod_list ?E1 = ?m" "prod_list ?E2 = ?m" unfolding ne by (simp_all add: algebra_simps)
      show "length (data x) = ?m" by (rule len)
    next
      fix idx assume "list_all2 (<) idx ?E2"
      then obtain n c s1 s2 h w where i: "idx = [n, c, s1, s2, h, w]"
        and b: "n < ?N" "c < sub" "s1 < S" "s2 < S" "h < H" "w < W"
        unfolding bounded6 by blast
      show "list_all2 (<) (?q idx) ?E1 \<and> ?p (?q idx) = idx" using b by (simp add: i)
    qed
  qed
  have "pixel_unshuffle_cpu junk' ?y S = Inr x"
    unfolding pixel_unshuffle_cpu_packed[OF sy nz ly fy ty] ny
    using rt sz fmt by simp
  then show ?thesis using a by auto
qed


subsection \<open>The operations on whole tensors, channels-last\<close>

lemma sizes4_last3: "[N, c, h, w] = [N] @ [c, h, (w::nat)]"
  by simp

lemma pixel_shuffle_cpu_channels_last:
  assumes sz: "sizes x = [N, sub * S * S, H, W]"
    and S: "0 < S"
    and len: "length (data x) = numel x"
    and fmt: "memory_format x = ChannelsLast"
    and st: "scalar_type x = kFloat \<or> scalar_type x = kDouble"
  shows "pixel_shuffle_cpu junk x S =
         Inr \<lparr>sizes = [N, sub, H * S, W * S], memory_format = ChannelsLast,
              scalar_type = scalar_type x,
              data = map (\<lambda>i. data x !
                 row_major [N, H, W, sub, S, S]
                   (case snd (data_index_init i [N, H, S, W, S, sub]) of
                      [n, h, s1, w, s2, c] \<Rightarrow> [n, h, w, c, s1, s2] | _ \<Rightarrow> []))
               [0..<numel x]\<rparr>"
proof -
  let ?out = "empty_resized junk (scalar_type x) [N, sub, H * S, W * S] ChannelsLast"
  have sz': "sizes x = [N] @ [sub * S * S, H, W]" using sz by simp
  have nd: "\<not> ndimension x < 3" by (simp add: ndimension_def sz)
  have os: "pixel_shuffle_output_sizes x S = [N, sub, H * S, W * S]"
    unfolding pixel_shuffle_output_sizes_def size_at_last3[OF sz'] div_div_square[OF S] by simp
  have lo: "length (data ?out) = numel x"
    by (simp add: empty_resized_def size_at4(6)[OF sz] algebra_simps)
  have "pixel_shuffle_cpu junk x S = cpu_pixel_shuffle_channels_last ?out x S"
    using nd S st
    by (simp add: pixel_shuffle_cpu_def os Let_def suggest_memory_format_def fmt
        pixel_shuffle_kernel_def AT_DISPATCH_FLOATING_TYPES_def)
  then show ?thesis
    unfolding cpu_pixel_shuffle_channels_last_closed[OF sz S len lo]
    by (simp add: empty_resized_def)
qed

lemma pixel_unshuffle_cpu_channels_last:
  assumes sz: "sizes x = [N, sub, H * S, W * S]"
    and S: "0 < S"
    and len: "length (data x) = numel x"
    and fmt: "memory_format x = ChannelsLast"
    and st: "scalar_type x = kFloat \<or> scalar_type x = kDouble"
  shows "pixel_unshuffle_cpu junk x S =
         Inr \<lparr>sizes = [N, sub * S * S, H, W], memory_format = ChannelsLast,
              scalar_type = scalar_type x,
              data = map (\<lambda>i. data x !
                 row_major [N, H, S, W, S, sub]
                   (case snd (data_index_init i [N, H, W, sub, S, S]) of
                      [n, h, w, c, s1, s2] \<Rightarrow> [n, h, s1, w, s2, c] | _ \<Rightarrow> []))
               [0..<numel x]\<rparr>"
proof -
  let ?out = "empty_resized junk (scalar_type x) [N, sub * S * S, H, W] ChannelsLast"
  have sz': "sizes x = [N] @ [sub, H * S, W * S]" using sz by simp
  have nd: "\<not> ndimension x < 3" by (simp add: ndimension_def sz)
  have os: "pixel_unshuffle_output_sizes x S = [N, sub * S * S, H, W]"
    unfolding pixel_unshuffle_output_sizes_def size_at_last3[OF sz'] using S by simp
  have so: "sizes ?out = [N, sub * S * S, H, W]" by (simp add: empty_resized_def)
  have ne: "numel ?out = numel x"
    unfolding size_at4(6)[OF so] size_at4(6)[OF sz] by (simp add: algebra_simps)
  have lo: "length (data ?out) = numel ?out"
    by (simp add: empty_resized_def numel_def)
  have lx: "length (data x) = numel ?out" using len ne by simp
  have "pixel_unshuffle_cpu junk x S = cpu_pixel_shuffle_backward_channels_last ?out x S"
    using nd S st
    by (simp add: pixel_unshuffle_cpu_def os Let_def suggest_memory_format_def fmt
        pixel_unshuffle_kernel_def AT_DISPATCH_FLOATING_TYPES_def)
  then show ?thesis
    unfolding cpu_pixel_shuffle_backward_channels_last_closed[OF so S size_at4(5)[OF sz] lx lo] ne
    by (simp add: empty_resized_def)
qed

lemma pixel_round_trip_channels_last:
  assumes sz: "sizes x = [N, sub * S * S, H, W]"
    and S: "0 < S"
    and len: "length (data x) = numel x"
    and fmt: "memory_format x = ChannelsLast"
    and st: "scalar_type x = kFloat \<or> scalar_type x = kDouble"
  shows "\<exists>y. pixel_shuffle_cpu junk x S = Inr y \<and> sizes y = [N, sub, H * S, W * S] \<and>
             pixel_unshuffle_cpu junk' y S = Inr x"
proof -
  let ?E1 = "[N, H, S, W, S, sub]"
  let ?E2 = "[N, H, W, sub, S, S]"
  let ?p = "\<lambda>idx. case idx of [n, h, s1, w, s2, c] \<Rightarrow> [n, h, w, c, s1, (s2::nat)] | _ \<Rightarrow> []"
  let ?q = "\<lambda>idx. case idx of [n, h, w, c, s1, s2] \<Rightarrow> [n, h, s1, w, s2, (c::nat)] | _ \<Rightarrow> []"
  let ?m = "numel x"
  let ?G1 = "map (\<lambda>i. data x ! row_major ?E2 (?p (snd (data_index_init i ?E1)))) [0..<?m]"
  let ?y = "\<lparr>sizes = [N, sub, H * S, W * S], memory_format = ChannelsLast,
              scalar_type = scalar_type x, data = ?G1\<rparr>"
  have ne: "?m = N * (sub * S * S) * H * W" by (rule size_at4(6)[OF sz])
  have a: "pixel_shuffle_cpu junk x S = Inr ?y"
    by (rule pixel_shuffle_cpu_channels_last[OF sz S len fmt st])
  have sy: "sizes ?y = [N, sub, H * S, W * S]" by simp
  have "numel ?y = prod_list [N, sub, H * S, W * S]" by (simp add: numel_def)
  then have ny: "numel ?y = ?m" by (simp add: ne algebra_simps)
  have ly: "length (data ?y) = numel ?y" unfolding ny by simp
  have fy: "memory_format ?y = ChannelsLast" by simp
  have ty: "scalar_type ?y = kFloat \<or> scalar_type ?y = kDouble" using st by simp
  have rt: "map (\<lambda>j. ?G1 ! row_major ?E1 (?q (snd (data_index_init j ?E2)))) [0..<?m] = data x"
  proof (cases "?m = 0")
    case True
    then show ?thesis using len by simp
  next
    case False
    then have p: "0 < N" "0 < sub" "0 < H" "0 < W" unfolding ne by simp_all
    show ?thesis
    proof (rule gather_inverse)
      show "\<forall>X\<in>set ?E1. 0 < X" "\<forall>X\<in>set ?E2. 0 < X" using S p by simp_all
      show "prod_list ?E1 = ?m" "prod_list ?E2 = ?m" unfolding ne by (simp_all add: algebra_simps)
      show "length (data x) = ?m" by (rule len)
    next
      fix idx assume "list_all2 (<) idx ?E2"
      then obtain n h w c s1 s2 where i: "idx = [n, h, w, c, s1, s2]"
        and b: "n < N" "h < H" "w < W" "c < sub" "s1 < S" "s2 < S"
        unfolding bounded6 by blast
      show "list_all2 (<) (?q idx) ?E1 \<and> ?p (?q idx) = idx" using b by (simp add: i)
    qed
  qed
  have "pixel_unshuffle_cpu junk' ?y S = Inr x"
    unfolding pixel_unshuffle_cpu_channels_last[OF sy S ly fy ty] ny
    using rt sz fmt by simp
  then show ?thesis using a by auto
qed


subsection \<open>The entry points\<close>

lemma pixel_shuffle_checked:
  assumes "3 \<le> ndimension x" "0 < F" "F * F < 2 ^ 63" "int (size_at x (- 3)) mod (F * F) = 0"
  shows "pixel_shuffle grad_mode junk x F = pixel_shuffle_cpu junk x (nat F)"
  using assms
  by (simp add: pixel_shuffle_def PixelShuffleOp_forward_def PixelShuffleOp__forward_def Let_def)

lemma pixel_unshuffle_checked:
  assumes "3 \<le> ndimension x" "0 < F" "int (size_at x (- 2)) mod F = 0"
    "int (size_at x (- 1)) mod F = 0"
  shows "pixel_unshuffle grad_mode junk x F = pixel_unshuffle_cpu junk x (nat F)"
  using assms
  by (simp add: pixel_unshuffle_def PixelUnshuffleOp_forward_def PixelUnshuffleOp__forward_def
      Let_def)

lemma int_mod_nat:
  assumes "0 < F" "int c mod F = 0"
  shows "c mod nat F = 0"
proof -
  have "int c mod int (nat F) = 0" using assms by simp
  then show ?thesis by (metis of_nat_mod of_nat_eq_0_iff)
qed

lemma square_factor:
  assumes "0 < F" "int c mod (F * F) = 0"
  shows "c = c div (nat F * nat F) * nat F * nat F"
proof -
  have "int c mod int (nat F * nat F) = 0" using assms by simp
  then have "c mod (nat F * nat F) = 0" by (metis of_nat_mod of_nat_eq_0_iff)
  then show ?thesis by (simp add: mult.assoc mod_eq_0_iff_dvd)
qed

lemma mult_mod_nat:
  assumes "0 < F"
  shows "int (h * nat F) mod F = 0"
  using assms by simp

lemma wf_tensor_layout:
  assumes "wf_tensor x"
  shows "length (data x) = numel x"
    and "memory_format x = ChannelsLast \<Longrightarrow> length (sizes x) = 4 \<and> numel x \<noteq> 0"
    and "numel x = 0 \<Longrightarrow> memory_format x = Contiguous"
  using assms by (auto simp add: wf_tensor_def numel_def split: MemoryFormat.splits)

text \<open>
  Outside the tensors with \<open>C * H * W = 0\<close>, on which the packed kernels divide by
  zero, unshuffle gives back the tensor that was shuffled, in both layouts, with
  and without the context being saved, and whatever the fresh buffers held.
\<close>

lemma unshuffle_of_shuffle:
  assumes wf: "wf_tensor x"
    and st: "scalar_type x = kFloat \<or> scalar_type x = kDouble"
    and fmt: "memory_format x = Contiguous \<or> memory_format x = ChannelsLast"
    and rank: "3 \<le> ndimension x" and F: "0 < F" and FF: "F * F < 2 ^ 63"
    and dv: "int (size_at x (- 3)) mod (F * F) = 0"
    and nz: "size_at x (- 3) * size_at x (- 2) * size_at x (- 1) \<noteq> 0"
  shows "\<exists>y. pixel_shuffle grad_mode junk x F = Inr y \<and>
             pixel_unshuffle grad_mode' junk' y F = Inr x"
proof -
  let ?S = "nat F"
  obtain bs C H W where sz: "sizes x = bs @ [C, H, W]"
    using rank split_last3 unfolding ndimension_def by blast
  note l3 = size_at_last3[OF sz]
  let ?sub = "C div (?S * ?S)"
  have C: "C = ?sub * ?S * ?S" using square_factor[OF F] dv unfolding l3 by simp
  have sz': "sizes x = bs @ [?sub * ?S * ?S, H, W]" using sz C by simp
  have S: "0 < ?S" using F by simp
  have len: "length (data x) = numel x" by (rule wf_tensor_layout(1)[OF wf])
  have nz': "?sub * ?S * ?S * H * W \<noteq> 0" using nz C unfolding l3 by simp
  have e1: "pixel_shuffle grad_mode junk x F = pixel_shuffle_cpu junk x ?S"
    by (rule pixel_shuffle_checked[OF rank F FF dv])
  have "\<exists>y. pixel_shuffle_cpu junk x ?S = Inr y \<and> sizes y = bs @ [?sub, H * ?S, W * ?S] \<and>
             pixel_unshuffle_cpu junk' y ?S = Inr x"
  proof (cases "memory_format x = Contiguous")
    case True
    show ?thesis by (rule pixel_round_trip_packed[OF sz' nz' len True st])
  next
    case False
    then have cl: "memory_format x = ChannelsLast" using fmt by simp
    then have "length (sizes x) = 4" using wf_tensor_layout(2)[OF wf] by simp
    then obtain N where bs: "bs = [N]" unfolding sz by (cases bs) simp_all
    have s4: "sizes x = [N, ?sub * ?S * ?S, H, W]" using sz' bs by simp
    show ?thesis
      using pixel_round_trip_channels_last[OF s4 S len cl st, of junk junk'] bs by simp
  qed
  then obtain y where y: "pixel_shuffle_cpu junk x ?S = Inr y"
    "sizes y = bs @ [?sub, H * ?S, W * ?S]" "pixel_unshuffle_cpu junk' y ?S = Inr x"
    by blast
  have ry: "3 \<le> ndimension y" by (simp add: ndimension_def y(2))
  have "pixel_unshuffle grad_mode' junk' y F = pixel_unshuffle_cpu junk' y ?S"
    by (rule pixel_unshuffle_checked[OF ry F])
      (simp_all add: size_at_last3[OF y(2)] mult_mod_nat[OF F])
  then show ?thesis using e1 y by simp
qed


lemma empty_is_packed:
  assumes wf: "wf_tensor x" and rank: "3 \<le> ndimension x"
    and z: "size_at x (- 3) * size_at x (- 2) * size_at x (- 1) = 0"
  shows "memory_format x = Contiguous"
proof -
  obtain bs C H W where sz: "sizes x = bs @ [C, H, W]"
    using rank split_last3 unfolding ndimension_def by blast
  have "numel x = 0" using z unfolding numel_last3[OF sz] size_at_last3[OF sz] by simp
  then show ?thesis by (rule wf_tensor_layout(3)[OF wf])
qed

text \<open>
  Claim C1 fails on the code for every tensor with \<open>C * H * W = 0\<close>, that is with
  no channels, no rows or no columns.  The host library reports the packed layout
  for such a tensor; all the checks of \<open>pixel_shuffle\<close> pass, and the packed kernel
  divides the number of elements by \<open>channels * height * width = 0\<close>, so that
  no tensor comes back to be unshuffled.  For \<open>pixel_unshuffle\<close> on such a tensor
  it is the same.
\<close>

theorem shuffle_of_empty_tensor_divides_by_zero:
  "(wf_tensor x \<and> (scalar_type x = kFloat \<or> scalar_type x = kDouble) \<and>
    3 \<le> ndimension x \<and> 0 < F \<and> F * F < 2 ^ 63 \<and>
    int (size_at x (- 3)) mod (F * F) = 0 \<and>
    size_at x (- 3) * size_at x (- 2) * size_at x (- 1) = 0
    \<longrightarrow>
    pixel_shuffle grad_mode junk x F = Inl DivisionByZero \<and>
    bind (pixel_shuffle grad_mode junk x F) (\<lambda>y. pixel_unshuffle grad_mode' junk' y F) =
      Inl DivisionByZero) \<and>
   (wf_tensor x \<and> (scalar_type x = kFloat \<or> scalar_type x = kDouble) \<and>
    3 \<le> ndimension x \<and> 0 < F \<and>
    int (size_at x (- 2)) mod F = 0 \<and> int (size_at x (- 1)) mod F = 0 \<and>
    size_at x (- 3) * size_at x (- 2) * size_at x (- 1) = 0
    \<longrightarrow>
    pixel_unshuffle grad_mode junk x F = Inl DivisionByZero)"
proof (intro conjI impI)
  assume a: "wf_tensor x \<and> (scalar_type x = kFloat \<or> scalar_type x = kDouble) \<and>
    3 \<le> ndimension x \<and> 0 < F \<and> F * F < 2 ^ 63 \<and>
    int (size_at x (- 3)) mod (F * F) = 0 \<and>
    size_at x (- 3) * size_at x (- 2) * size_at x (- 1) = 0"
  then have wf: "wf_tensor x" and st: "scalar_type x = kFloat \<or> scalar_type x = kDouble"
    and rank: "3 \<le> ndimension x" and F: "0 < F" and FF: "F * F < 2 ^ 63"
    and dv: "int (size_at x (- 3)) mod (F * F) = 0"
    and z: "size_at x (- 3) * size_at x (- 2) * size_at x (- 1) = 0"
    by simp_all
  have fmt: "memory_format x = Contiguous" by (rule empty_is_packed[OF wf rank z])
  have S: "nat F \<noteq> 0" "nat F * nat F \<noteq> 0" using F by simp_all
  have k: "cpu_pixel_shuffle out x (nat F) = Inl DivisionByZero" for out
    unfolding cpu_pixel_shuffle_def Let_def using S z by simp
  have "pixel_shuffle_cpu junk x (nat F) = Inl DivisionByZero"
    unfolding pixel_shuffle_cpu_def pixel_shuffle_kernel_def Let_def suggest_memory_format_def
      fmt contiguous_same[OF fmt] k
    using rank S st by (simp add: AT_DISPATCH_FLOATING_TYPES_def)
  then show s: "pixel_shuffle grad_mode junk x F = Inl DivisionByZero"
    unfolding pixel_shuffle_checked[OF rank F FF dv] .
  show "bind (pixel_shuffle grad_mode junk x F) (\<lambda>y. pixel_unshuffle grad_mode' junk' y F) =
      Inl DivisionByZero"
    unfolding s by (simp add: bind_def)
next
  assume a: "wf_tensor x \<and> (scalar_type x = kFloat \<or> scalar_type x = kDouble) \<and>
    3 \<le> ndimension x \<and> 0 < F \<and>
    int (size_at x (- 2)) mod F = 0 \<and> int (size_at x (- 1)) mod F = 0 \<and>
    size_at x (- 3) * size_at x (- 2) * size_at x (- 1) = 0"
  then have wf: "wf_tensor x" and st: "scalar_type x = kFloat \<or> scalar_type x = kDouble"
    and rank: "3 \<le> ndimension x" and F: "0 < F"
    and dh: "int (size_at x (- 2)) mod F = 0" and dw: "int (size_at x (- 1)) mod F = 0"
    and z: "size_at x (- 3) * size_at x (- 2) * size_at x (- 1) = 0"
    by simp_all
  have fmt: "memory_format x = Contiguous" by (rule empty_is_packed[OF wf rank z])
  have S: "nat F \<noteq> 0" "nat F * nat F \<noteq> 0" using F by simp_all
  obtain bs C H W where sz: "sizes x = bs @ [C, H, W]"
    using rank split_last3 unfolding ndimension_def by blast
  note l3 = size_at_last3[OF sz]
  let ?out = "empty_resized junk (scalar_type x)
                (bs @ [C * nat F * nat F, H div nat F, W div nat F]) Contiguous"
  have os: "pixel_unshuffle_output_sizes x (nat F) = bs @ [C * nat F * nat F, H div nat F, W div nat F]"
    unfolding pixel_unshuffle_output_sizes_def l3 by simp
  have so: "sizes ?out = bs @ [C * nat F * nat F, H div nat F, W div nat F]"
    by (simp add: empty_resized_def)
  have "C = 0 \<or> H = 0 \<or> W = 0" using z unfolding l3 by simp
  then have z': "C * nat F * nat F * (H div nat F) * (W div nat F) = 0" by auto
  have k: "cpu_pixel_shuffle_backward ?out x (nat F) = Inl DivisionByZero"
    unfolding cpu_pixel_shuffle_backward_def Let_def size_at_last3[OF so] using S z' by simp
  have "pixel_unshuffle_cpu junk x (nat F) = Inl DivisionByZero"
    unfolding pixel_unshuffle_cpu_def pixel_unshuffle_kernel_def Let_def suggest_memory_format_def
      fmt contiguous_same[OF fmt] os k
    using rank S st by (simp add: AT_DISPATCH_FLOATING_TYPES_def)
  then show "pixel_unshuffle grad_mode junk x F = Inl DivisionByZero"
    unfolding pixel_unshuffle_checked[OF rank F dh dw] .
qed

theorem shuffle_of_empty_tensor_divides_by_zero_witness:
  "wf_tensor (ex_tensor Contiguous kFloat [1, 4, 0, 1] ([] :: rat list)) \<and>
   pixel_shuffle False stale (ex_tensor Contiguous kFloat [1, 4, 0, 1] []) 2 = Inl DivisionByZero \<and>
   pixel_unshuffle True stale (ex_tensor Contiguous kFloat [1, 4, 0, 1] []) 1 = Inl DivisionByZero"
proof -
  let ?x = "ex_tensor Contiguous kFloat [1, 4, 0, 1] ([] :: rat list)"
  have sx: "scalar_type ?x = kFloat" "ndimension ?x = 4"
    "size_at ?x (- 3) = 4" "size_at ?x (- 2) = 0" "size_at ?x (- 1) = 1"
    by (simp_all add: ex_tensor_def ndimension_def size_at_def)
  have w: "wf_tensor ?x" by (simp add: wf_tensor_def ex_tensor_def)
  have p1: "wf_tensor ?x \<and> (scalar_type ?x = kFloat \<or> scalar_type ?x = kDouble) \<and>
    3 \<le> ndimension ?x \<and> 0 < (2 :: int) \<and> (2 :: int) * 2 < 2 ^ 63 \<and>
    int (size_at ?x (- 3)) mod (2 * 2) = 0 \<and>
    size_at ?x (- 3) * size_at ?x (- 2) * size_at ?x (- 1) = 0"
    unfolding sx using w by simp
  have p2: "wf_tensor ?x \<and> (scalar_type ?x = kFloat \<or> scalar_type ?x = kDouble) \<and>
    3 \<le> ndimension ?x \<and> 0 < (1 :: int) \<and>
    int (size_at ?x (- 2)) mod 1 = 0 \<and> int (size_at ?x (- 1)) mod 1 = 0 \<and>
    size_at ?x (- 3) * size_at ?x (- 2) * size_at ?x (- 1) = 0"
    unfolding sx using w by simp
  note a = shuffle_of_empty_tensor_divides_by_zero[where x = ?x and F = 2
      and grad_mode = False and junk = stale, THEN conjunct1, THEN mp, OF p1, THEN conjunct1]
  note b = shuffle_of_empty_tensor_divides_by_zero[where x = ?x and F = 1
      and grad_mode = True and junk = stale, THEN conjunct2, THEN mp, OF p2]
  show ?thesis using w a b by simp
qed

text \<open>
  Claim C2 as stated fails: a tensor of five dimensions in the channels-last-3d
  layout and a tensor of 64-bit integers pass the conditions of the claim, and no
  tensor is returned.
\<close>

theorem shape_law_needs_layout_and_kind:
  "wf_tensor (ex_tensor ChannelsLast3d kFloat [1, 2, 2, 2, 2] (replicate 16 (1 :: rat))) \<and>
   3 \<le> ndimension (ex_tensor ChannelsLast3d kFloat [1, 2, 2, 2, 2] (replicate 16 (1 :: rat))) \<and>
   int (size_at (ex_tensor ChannelsLast3d kFloat [1, 2, 2, 2, 2] (replicate 16 (1 :: rat))) (- 3))
     mod (1 * 1) = 0 \<and>
   int (size_at (ex_tensor ChannelsLast3d kFloat [1, 2, 2, 2, 2] (replicate 16 (1 :: rat))) (- 2))
     mod 1 = 0 \<and>
   int (size_at (ex_tensor ChannelsLast3d kFloat [1, 2, 2, 2, 2] (replicate 16 (1 :: rat))) (- 1))
     mod 1 = 0 \<and>
   pixel_shuffle False stale
     (ex_tensor ChannelsLast3d kFloat [1, 2, 2, 2, 2] (replicate 16 1)) 1 = Inl InvalidLayout \<and>
   pixel_unshuffle False stale
     (ex_tensor ChannelsLast3d kFloat [1, 2, 2, 2, 2] (replicate 16 1)) 1 = Inl InvalidLayout \<and>
   wf_tensor (ex_tensor Contiguous kLong [1, 1, 1] [5 :: rat]) \<and>
   3 \<le> ndimension (ex_tensor Contiguous kLong [1, 1, 1] [5 :: rat]) \<and>
   int (size_at (ex_tensor Contiguous kLong [1, 1, 1] [5 :: rat]) (- 3)) mod (1 * 1) = 0 \<and>
   pixel_shuffle False stale (ex_tensor Contiguous kLong [1, 1, 1] [5]) 1 =
     Inl UnsupportedScalarType \<and>
   pixel_unshuffle False stale (ex_tensor Contiguous kLong [1, 1, 1] [5]) 1 =
     Inl UnsupportedScalarType"
  by (simp add: pixel_shuffle_def pixel_unshuffle_def PixelShuffleOp__forward_def
      PixelUnshuffleOp__forward_def pixel_shuffle_cpu_def pixel_unshuffle_cpu_def
      pixel_shuffle_kernel_def pixel_unshuffle_kernel_def AT_DISPATCH_FLOATING_TYPES_def
      suggest_memory_format_def ex_tensor_def ndimension_def size_at_def Let_def wf_tensor_def)


text \<open>
  Claim C2, amended.  For a well-formed tensor of a 32-bit or 64-bit float kind
  in the packed or the channels-last layout, of rank at least 3, and a factor
  \<open>F > 0\<close>: when \<open>F * F\<close> fits 64 bits and divides the channel count,
  \<open>pixel_shuffle\<close> returns a tensor of sizes \<open>[..., C div (F * F), H * F, W * F]\<close>;
  when \<open>F\<close> divides the height and the width, \<open>pixel_unshuffle\<close> returns a tensor of
  sizes \<open>[..., C * (F * F), H div F, W div F]\<close>; the leading sizes are those of the
  input.  Tensors with \<open>C * H * W = 0\<close> are left out.
\<close>

theorem shuffle_shape_law:
  "(wf_tensor x \<and> (scalar_type x = kFloat \<or> scalar_type x = kDouble) \<and>
    (memory_format x = Contiguous \<or> memory_format x = ChannelsLast) \<and>
    3 \<le> ndimension x \<and> 0 < F \<and> F * F < 2 ^ 63 \<and>
    int (size_at x (- 3)) mod (F * F) = 0 \<and>
    size_at x (- 3) * size_at x (- 2) * size_at x (- 1) \<noteq> 0
    \<longrightarrow>
    (\<exists>y. pixel_shuffle grad_mode junk x F = Inr y \<and>
         sizes y = take (ndimension x - 3) (sizes x) @
                   [size_at x (- 3) div nat (F * F), size_at x (- 2) * nat F,
                    size_at x (- 1) * nat F])) \<and>
   (wf_tensor x \<and> (scalar_type x = kFloat \<or> scalar_type x = kDouble) \<and>
    (memory_format x = Contiguous \<or> memory_format x = ChannelsLast) \<and>
    3 \<le> ndimension x \<and> 0 < F \<and> int (size_at x (- 2)) mod F = 0 \<and>
    int (size_at x (- 1)) mod F = 0 \<and>
    size_at x (- 3) * size_at x (- 2) * size_at x (- 1) \<noteq> 0
    \<longrightarrow>
    (\<exists>y. pixel_unshuffle grad_mode junk x F = Inr y \<and>
         sizes y = take (ndimension x - 3) (sizes x) @
                   [size_at x (- 3) * nat (F * F), size_at x (- 2) div nat F,
                    size_at x (- 1) div nat F]))"
proof (intro conjI impI)
  assume a: "wf_tensor x \<and> (scalar_type x = kFloat \<or> scalar_type x = kDouble) \<and>
    (memory_format x = Contiguous \<or> memory_format x = ChannelsLast) \<and>
    3 \<le> ndimension x \<and> 0 < F \<and> F * F < 2 ^ 63 \<and>
    int (size_at x (- 3)) mod (F * F) = 0 \<and>
    size_at x (- 3) * size_at x (- 2) * size_at x (- 1) \<noteq> 0"
  then have wf: "wf_tensor x" and st: "scalar_type x = kFloat \<or> scalar_type x = kDouble"
    and fmt: "memory_format x = Contiguous \<or> memory_format x = ChannelsLast"
    and rank: "3 \<le> ndimension x" and F: "0 < F" and F63: "F * F < 2 ^ 63"
    and dv: "int (size_at x (- 3)) mod (F * F) = 0"
    and nz: "size_at x (- 3) * size_at x (- 2) * size_at x (- 1) \<noteq> 0"
    by simp_all
  let ?S = "nat F"
  obtain bs C H W where sz: "sizes x = bs @ [C, H, W]"
    using rank split_last3 unfolding ndimension_def by blast
  note l3 = size_at_last3[OF sz]
  let ?sub = "C div (?S * ?S)"
  have C: "C = ?sub * ?S * ?S" using square_factor[OF F] dv unfolding l3 by simp
  have sz': "sizes x = bs @ [?sub * ?S * ?S, H, W]" using sz C by simp
  have S: "0 < ?S" using F by simp
  have FF: "nat (F * F) = ?S * ?S" using F by (simp add: nat_mult_distrib)
  have len: "length (data x) = numel x" by (rule wf_tensor_layout(1)[OF wf])
  have e1: "pixel_shuffle grad_mode junk x F = pixel_shuffle_cpu junk x ?S"
    by (rule pixel_shuffle_checked[OF rank F F63 dv])
  have tk: "take (ndimension x - 3) (sizes x) = bs" by (simp add: ndimension_def sz)
  have "\<exists>y. pixel_shuffle_cpu junk x ?S = Inr y \<and> sizes y = bs @ [?sub, H * ?S, W * ?S]"
  proof (cases "memory_format x = Contiguous")
    case True
    have "?sub * ?S * ?S * H * W \<noteq> 0" using nz C unfolding l3 by simp
    then show ?thesis using pixel_shuffle_cpu_packed[OF sz' _ len True st, of junk] by simp
  next
    case False
    then have cl: "memory_format x = ChannelsLast" using fmt by simp
    then have "length (sizes x) = 4" using wf_tensor_layout(2)[OF wf] by simp
    then obtain N where bs: "bs = [N]" unfolding sz by (cases bs) simp_all
    have s4: "sizes x = [N, ?sub * ?S * ?S, H, W]" using sz' bs by simp
    show ?thesis
      using pixel_shuffle_cpu_channels_last[OF s4 S len cl st, of junk] bs by simp
  qed
  then show "\<exists>y. pixel_shuffle grad_mode junk x F = Inr y \<and>
         sizes y = take (ndimension x - 3) (sizes x) @
                   [size_at x (- 3) div nat (F * F), size_at x (- 2) * nat F,
                    size_at x (- 1) * nat F]"
    unfolding e1 tk l3 FF by simp
next
  assume a: "wf_tensor x \<and> (scalar_type x = kFloat \<or> scalar_type x = kDouble) \<and>
    (memory_format x = Contiguous \<or> memory_format x = ChannelsLast) \<and>
    3 \<le> ndimension x \<and> 0 < F \<and> int (size_at x (- 2)) mod F = 0 \<and>
    int (size_at x (- 1)) mod F = 0 \<and>
    size_at x (- 3) * size_at x (- 2) * size_at x (- 1) \<noteq> 0"
  then have wf: "wf_tensor x" and st: "scalar_type x = kFloat \<or> scalar_type x = kDouble"
    and fmt: "memory_format x = Contiguous \<or> memory_format x = ChannelsLast"
    and rank: "3 \<le> ndimension x" and F: "0 < F"
    and dh: "int (size_at x (- 2)) mod F = 0" and dw: "int (size_at x (- 1)) mod F = 0"
    and nz: "size_at x (- 3) * size_at x (- 2) * size_at x (- 1) \<noteq> 0"
    by simp_all
  let ?S = "nat F"
  obtain bs C H W where sz: "sizes x = bs @ [C, H, W]"
    using rank split_last3 unfolding ndimension_def by blast
  note l3 = size_at_last3[OF sz]
  let ?H = "H div ?S" and ?W = "W div ?S"
  have S: "0 < ?S" using F by simp
  have "H mod ?S = 0" "W mod ?S = 0" using int_mod_nat[OF F] dh dw unfolding l3 by simp_all
  then have HW: "H = ?H * ?S" "W = ?W * ?S" by (simp_all add: mod_eq_0_iff_dvd)
  have sz': "sizes x = bs @ [C, ?H * ?S, ?W * ?S]" using sz HW by simp
  have FF: "nat (F * F) = ?S * ?S" using F by (simp add: nat_mult_distrib)
  have len: "length (data x) = numel x" by (rule wf_tensor_layout(1)[OF wf])
  have e1: "pixel_unshuffle grad_mode junk x F = pixel_unshuffle_cpu junk x ?S"
    by (rule pixel_unshuffle_checked[OF rank F dh dw])
  have tk: "take (ndimension x - 3) (sizes x) = bs" by (simp add: ndimension_def sz)
  have "\<exists>y. pixel_unshuffle_cpu junk x ?S = Inr y \<and> sizes y = bs @ [C * ?S * ?S, ?H, ?W]"
  proof (cases "memory_format x = Contiguous")
    case True
    have "C * H * W \<noteq> 0" using nz unfolding l3 by simp
    then have "C \<noteq> 0" "?H * ?S \<noteq> 0" "?W * ?S \<noteq> 0" using HW by simp_all
    then have "C * ?S * ?S * ?H * ?W \<noteq> 0" by simp
    then show ?thesis using pixel_unshuffle_cpu_packed[OF sz' _ len True st, of junk] by simp
  next
    case False
    then have cl: "memory_format x = ChannelsLast" using fmt by simp
    then have "length (sizes x) = 4" using wf_tensor_layout(2)[OF wf] by simp
    then obtain N where bs: "bs = [N]" unfolding sz by (cases bs) simp_all
    have s4: "sizes x = [N, C, ?H * ?S, ?W * ?S]" using sz' bs by simp
    show ?thesis
      using pixel_unshuffle_cpu_channels_last[OF s4 S len cl st, of junk] bs by simp
  qed
  then show "\<exists>y. pixel_unshuffle grad_mode junk x F = Inr y \<and>
         sizes y = take (ndimension x - 3) (sizes x) @
                   [size_at x (- 3) * nat (F * F), size_at x (- 2) div nat F,
                    size_at x (- 1) div nat F]"
    unfolding e1 tk l3 FF by (simp add: mult.assoc)
qed

theorem shuffle_shape_law_witness:
  "wf_tensor (ex_tensor Contiguous kFloat [3, 4, 1, 1] (replicate 12 (1 :: rat))) \<and>
   (\<exists>y. pixel_shuffle False stale
          (ex_tensor Contiguous kFloat [3, 4, 1, 1] (replicate 12 (1 :: rat))) 2 = Inr y \<and>
        sizes y = [3, 1, 2, 2]) \<and>
   wf_tensor (ex_tensor ChannelsLast kDouble [3, 1, 2, 2] (replicate 12 (1 :: rat))) \<and>
   (\<exists>y. pixel_unshuffle True stale
          (ex_tensor ChannelsLast kDouble [3, 1, 2, 2] (replicate 12 (1 :: rat))) 2 = Inr y \<and>
        sizes y = [3, 4, 1, 1])"
proof -
  let ?x = "ex_tensor Contiguous kFloat [3, 4, 1, 1] (replicate 12 (1 :: rat))"
  let ?z = "ex_tensor ChannelsLast kDouble [3, 1, 2, 2] (replicate 12 (1 :: rat))"
  have sx: "wf_tensor ?x" "scalar_type ?x = kFloat" "memory_format ?x = Contiguous"
    "ndimension ?x = 4" "size_at ?x (- 3) = 4" "size_at ?x (- 2) = 1" "size_at ?x (- 1) = 1"
    "sizes ?x = [3, 4, 1, 1]"
    by (simp_all add: wf_tensor_def ex_tensor_def ndimension_def size_at_def)
  have szz: "wf_tensor ?z" "scalar_type ?z = kDouble" "memory_format ?z = ChannelsLast"
    "ndimension ?z = 4" "size_at ?z (- 3) = 1" "size_at ?z (- 2) = 2" "size_at ?z (- 1) = 2"
    "sizes ?z = [3, 1, 2, 2]"
    by (simp_all add: wf_tensor_def ex_tensor_def ndimension_def size_at_def)
  have p1: "wf_tensor ?x \<and> (scalar_type ?x = kFloat \<or> scalar_type ?x = kDouble) \<and>
    (memory_format ?x = Contiguous \<or> memory_format ?x = ChannelsLast) \<and>
    3 \<le> ndimension ?x \<and> 0 < (2 :: int) \<and> (2 :: int) * 2 < 2 ^ 63 \<and>
    int (size_at ?x (- 3)) mod (2 * 2) = 0 \<and>
    size_at ?x (- 3) * size_at ?x (- 2) * size_at ?x (- 1) \<noteq> 0"
    unfolding sx(2-7) using sx(1) by simp
  have a: "\<exists>y. pixel_shuffle False stale ?x 2 = Inr y \<and> sizes y = [3, 1, 2, 2]"
    using shuffle_shape_law[where x = ?x and F = 2 and grad_mode = False and junk = stale,
        THEN conjunct1, THEN mp, OF p1]
    unfolding sx(4-8) by simp
  have p2: "wf_tensor ?z \<and> (scalar_type ?z = kFloat \<or> scalar_type ?z = kDouble) \<and>
    (memory_format ?z = Contiguous \<or> memory_format ?z = ChannelsLast) \<and>
    3 \<le> ndimension ?z \<and> 0 < (2 :: int) \<and> int (size_at ?z (- 2)) mod 2 = 0 \<and>
    int (size_at ?z (- 1)) mod 2 = 0 \<and>
    size_at ?z (- 3) * size_at ?z (- 2) * size_at ?z (- 1) \<noteq> 0"
    unfolding szz(2-7) using szz(1) by simp
  have b: "\<exists>y. pixel_unshuffle True stale ?z 2 = Inr y \<and> sizes y = [3, 4, 1, 1]"
    using shuffle_shape_law[where x = ?z and F = 2 and grad_mode = True and junk = stale,
        THEN conjunct2, THEN mp, OF p2]
    unfolding szz(4-8) by simp
  show ?thesis using a b sx(1) szz(1) by simp
qed


section \<open>The gradient of average pooling\<close>

subsection \<open>Loops that accumulate in one place\<close>

lemma for_each_accum:
  assumes "P s"
    and "\<And>x u. x \<in> set xs \<Longrightarrow> P u \<Longrightarrow>
           \<exists>u'. body x u = Inr u' \<and> P u' \<and> get u' = f x (get u)"
  shows "\<exists>s'. for_each xs body s = Inr s' \<and> P s' \<and> get s' = foldl (\<lambda>a x. f x a) (get s) xs"
  using assms
proof (induction xs arbitrary: s)
  case Nil
  then show ?case by simp
next
  case (Cons x xs)
  from Cons.prems(2)[of x s] Cons.prems(1)
  obtain u where u: "body x s = Inr u" "P u" "get u = f x (get s)" by auto
  have "\<exists>s'. for_each xs body u = Inr s' \<and> P s' \<and> get s' = foldl (\<lambda>a x. f x a) (get u) xs"
    using u(2) Cons.prems(2) by (intro Cons.IH) auto
  then show ?case using u by simp
qed

lemma foldl_same: "foldl (\<lambda>a x. a) a xs = a"
  by (induction xs) simp_all

lemma foldl_upto_at:
  "foldl (\<lambda>a x. if x = k then f a else a) a [lo..hi] = (if lo \<le> k \<and> k \<le> hi then f a else a)"
proof (induction lo hi arbitrary: a rule: upto.induct)
  case (1 i j)
  show ?case
  proof (cases "i \<le> j")
    case False
    then show ?thesis by auto
  next
    case True
    then have u: "[i..j] = i # [i + 1..j]" by (simp add: upto.simps)
    show ?thesis
    proof (cases "i = k")
      case True
      have n: "\<not> (i + 1 \<le> k \<and> k \<le> j)" using True by simp
      show ?thesis
        unfolding u using 1[OF \<open>i \<le> j\<close>, of "f a"] n \<open>i \<le> j\<close> True by simp
    next
      case False
      show ?thesis
        unfolding u using 1[OF True, of a] False True by auto
    qed
  qed
qed

lemma foldl_cong_set:
  assumes "\<And>a x. x \<in> set xs \<Longrightarrow> f a x = g a x"
  shows "foldl f a xs = foldl g a xs"
  using assms by (induction xs arbitrary: a) simp_all

lemma foldl_concat_map:
  "foldl f a (concat (map g xs)) = foldl (\<lambda>a x. foldl f a (g x)) a xs"
  by (induction xs arbitrary: a) simp_all


subsection \<open>The packed backward kernel\<close>

lemma plane_index_eq:
  fixes c ih iw c0 ih0 iw0 IH IW :: int
  assumes "0 \<le> c" "0 \<le> ih" "ih < IH" "0 \<le> iw" "iw < IW"
    and "0 \<le> c0" "0 \<le> ih0" "ih0 < IH" "0 \<le> iw0" "iw0 < IW"
  shows "(nat (c * IH * IW + ih * IW + iw) = nat (c0 * IH * IW + ih0 * IW + iw0)) =
         (c = c0 \<and> ih = ih0 \<and> iw = iw0)"
proof -
  have e: "c * IH * IW + ih * IW + iw = (c * IH + ih) * IW + iw"
    "c0 * IH * IW + ih0 * IW + iw0 = (c0 * IH + ih0) * IW + iw0"
    by (simp_all add: algebra_simps)
  have nn: "0 \<le> (c * IH + ih) * IW + iw" "0 \<le> (c0 * IH + ih0) * IW + iw0"
    using assms by simp_all
  have "((c * IH + ih) * IW + iw = (c0 * IH + ih0) * IW + iw0) = (c = c0 \<and> ih = ih0 \<and> iw = iw0)"
  proof
    assume q: "(c * IH + ih) * IW + iw = (c0 * IH + ih0) * IW + iw0"
    have "((c * IH + ih) * IW + iw) mod IW = iw" "((c0 * IH + ih0) * IW + iw0) mod IW = iw0"
      using assms by simp_all
    then have w: "iw = iw0" using q by simp
    have "((c * IH + ih) * IW + iw) div IW = c * IH + ih"
      "((c0 * IH + ih0) * IW + iw0) div IW = c0 * IH + ih0"
      using assms by simp_all
    then have r: "c * IH + ih = c0 * IH + ih0" using q by simp
    have "(c * IH + ih) mod IH = ih" "(c0 * IH + ih0) mod IH = ih0" using assms by simp_all
    then have h: "ih = ih0" using r by simp
    have "(c * IH + ih) div IH = c" "(c0 * IH + ih0) div IH = c0" using assms by simp_all
    then have "c = c0" using r by simp
    then show "c = c0 \<and> ih = ih0 \<and> iw = iw0" using h w by simp
  qed simp
  then show ?thesis unfolding e eq_nat_nat_iff[OF nn] .
qed

lemma plane_index_less:
  fixes c h w C H W :: int
  assumes "0 \<le> c" "c < C" "0 \<le> h" "h < H" "0 \<le> w" "w < W"
  shows "0 \<le> c * H * W + h * W + w" "nat (c * H * W + h * W + w) < nat (C * H * W)"
proof -
  show "0 \<le> c * H * W + h * W + w" using assms by simp
  have "(nat c * nat H + nat h) * nat W + nat w < nat C * nat H * nat W"
    using decode3(4)[of "nat h" "nat H" "nat w" "nat W" "nat c" "nat C"] assms by simp
  moreover have "nat (c * H * W + h * W + w) = (nat c * nat H + nat h) * nat W + nat w"
    using assms by (simp add: nat_add_distrib nat_mult_distrib algebra_simps)
  moreover have "nat (C * H * W) = nat C * nat H * nat W"
    using assms by (simp add: nat_mult_distrib)
  ultimately show "nat (c * H * W + h * W + w) < nat (C * H * W)" by simp
qed

lemma pool_window_bounds:
  assumes "pool_window oh ow kW kH dW dH padW padH IH IW = (a, b, c, d, ps)"
  shows "0 \<le> a" "0 \<le> b" "c \<le> IH" "d \<le> IW"
  using assms by (auto simp add: pool_window_def Let_def)

lemma cpu_avg_pool_backward_window_accum:
  fixes g :: "('a::plus) list"
  assumes c: "0 \<le> c" "c < C" and oh: "0 \<le> oh" "oh < OH" and ow: "0 \<le> ow" "ow < OW"
    and lg: "length g = nat (C * IH * IW)" and lgo: "length go = nat (C * OH * OW)"
    and tgt: "0 \<le> c0" "0 \<le> ih0" "ih0 < IH" "0 \<le> iw0" "iw0 < IW"
    and nt: "\<not> (traps \<and> pool_divide_factor dov cip
                            (pool_window oh ow kW kH dW dH padW padH IH IW) = 0)"
  shows "\<exists>g'. cpu_avg_pool_backward_window sdiv traps go IH IW OH OW
                kW kH dW dH padW padH cip dov c oh ow g = Inr g' \<and>
              length g' = length g \<and>
              g' ! nat (c0 * IH * IW + ih0 * IW + iw0) =
              (if c = c0 \<and> window_covers (pool_window oh ow kW kH dW dH padW padH IH IW) ih0 iw0
               then g ! nat (c0 * IH * IW + ih0 * IW + iw0) +
                    sdiv (go ! nat (c * OH * OW + oh * OW + ow))
                      (pool_divide_factor dov cip (pool_window oh ow kW kH dW dH padW padH IH IW))
               else g ! nat (c0 * IH * IW + ih0 * IW + iw0))"
proof -
  obtain a b a' b' ps where
    w: "pool_window oh ow kW kH dW dH padW padH IH IW = (a, b, a', b', ps)"
    by (metis prod_cases5)
  note bd = pool_window_bounds[OF w]
  let ?p = "nat (c0 * IH * IW + ih0 * IW + iw0)"
  let ?df = "pool_divide_factor dov cip (a, b, a', b', ps)"
  let ?delta = "sdiv (go ! nat (c * OH * OW + oh * OW + ow)) ?df"
  define cell where "cell = (\<lambda>ih iw (u :: 'a list).
      if \<not> (0 \<le> c * IH * IW + ih * IW + iw \<and> nat (c * IH * IW + ih * IW + iw) < length u)
      then Inl OutOfBounds
      else Inr (u[nat (c * IH * IW + ih * IW + iw) :=
                  u ! nat (c * IH * IW + ih * IW + iw) + ?delta]))"
  have rd: "0 \<le> c * OH * OW + oh * OW + ow \<and> nat (c * OH * OW + oh * OW + ow) < length go"
    using plane_index_less[OF c oh ow] lgo by simp
  have nt': "(traps \<and> pool_divide_factor dov cip (a, b, a', b', ps) = 0) = False"
    using nt w by simp
  have unf: "cpu_avg_pool_backward_window sdiv traps go IH IW OH OW
                kW kH dW dH padW padH cip dov c oh ow g =
             for_each [a..a' - 1] (\<lambda>ih. for_each [b..b' - 1] (cell ih)) g"
    using rd by (simp add: cpu_avg_pool_backward_window_def Let_def w nt' cell_def)
  have cell: "\<exists>u'. cell ih iw u = Inr u' \<and> length u' = length g \<and>
        u' ! ?p = (if c = c0 \<and> ih = ih0 \<and> iw = iw0 then u ! ?p + ?delta else u ! ?p)"
    if "length u = length g" "0 \<le> ih" "ih < IH" "0 \<le> iw" "iw < IW"
    for ih iw and u :: "'a list"
  proof -
    have r: "0 \<le> c * IH * IW + ih * IW + iw" "nat (c * IH * IW + ih * IW + iw) < length u"
      using plane_index_less[OF c that(2-5)] lg that(1) by simp_all
    have eq: "(nat (c * IH * IW + ih * IW + iw) = ?p) = (c = c0 \<and> ih = ih0 \<and> iw = iw0)"
      using plane_index_eq[OF c(1) that(2-5) tgt] .
    show ?thesis
      using r eq that(1) by (auto simp add: nth_list_update cell_def)
  qed
  have row: "\<exists>u'. for_each [b..b' - 1] (cell ih) u = Inr u' \<and> length u' = length g \<and>
        u' ! ?p = (if c = c0 \<and> ih = ih0 \<and> b \<le> iw0 \<and> iw0 \<le> b' - 1
                   then u ! ?p + ?delta else u ! ?p)"
    if "length u = length g" "0 \<le> ih" "ih < IH" for ih and u :: "'a list"
  proof -
    have "\<exists>u'. for_each [b..b' - 1] (cell ih) u = Inr u' \<and> length u' = length g \<and>
        (\<lambda>u. u ! ?p) u' =
        foldl (\<lambda>v iw. if iw = iw0 then (if c = c0 \<and> ih = ih0 then v + ?delta else v) else v)
          ((\<lambda>u. u ! ?p) u) [b..b' - 1]"
    proof (rule for_each_accum[where P = "\<lambda>u. length u = length g"
          and f = "\<lambda>iw v. if iw = iw0 then (if c = c0 \<and> ih = ih0 then v + ?delta else v) else v"])
      show "length u = length g" by (rule that(1))
    next
      fix iw and v :: "'a list"
      assume iw: "iw \<in> set [b..b' - 1]" and lv: "length v = length g"
      have "0 \<le> iw" "iw < IW" using iw bd by auto
      from cell[OF lv that(2,3) this]
      show "\<exists>u'. cell ih iw v = Inr u' \<and> length u' = length g \<and>
          u' ! ?p = (if iw = iw0 then (if c = c0 \<and> ih = ih0 then v ! ?p + ?delta else v ! ?p)
                     else v ! ?p)"
        by auto
    qed
    then show ?thesis unfolding foldl_upto_at by auto
  qed
  have "\<exists>g'. for_each [a..a' - 1] (\<lambda>ih. for_each [b..b' - 1] (cell ih)) g = Inr g' \<and>
      length g' = length g \<and>
      (\<lambda>u. u ! ?p) g' =
      foldl (\<lambda>v ih. if ih = ih0 then (if c = c0 \<and> b \<le> iw0 \<and> iw0 \<le> b' - 1 then v + ?delta else v)
                      else v)
        ((\<lambda>u. u ! ?p) g) [a..a' - 1]"
  proof (rule for_each_accum[where P = "\<lambda>u. length u = length g"
        and f = "\<lambda>ih v. if ih = ih0 then (if c = c0 \<and> b \<le> iw0 \<and> iw0 \<le> b' - 1 then v + ?delta else v)
                         else v"])
    show "length g = length g" by simp
  next
    fix ih and v :: "'a list"
    assume ih: "ih \<in> set [a..a' - 1]" and lv: "length v = length g"
    have "0 \<le> ih" "ih < IH" using ih bd by auto
    from row[OF lv this]
    show "\<exists>u'. for_each [b..b' - 1] (cell ih) v = Inr u' \<and> length u' = length g \<and>
        u' ! ?p = (if ih = ih0 then (if c = c0 \<and> b \<le> iw0 \<and> iw0 \<le> b' - 1 then v ! ?p + ?delta
                                     else v ! ?p)
                   else v ! ?p)"
      by auto
  qed
  then show ?thesis
    unfolding unf w foldl_upto_at by (auto simp add: window_covers_def)
qed


lemma foldl_covering_windows:
  "foldl (\<lambda>v oh. foldl (\<lambda>v ow.
       if window_covers (pool_window oh ow kW kH dW dH padW padH IH IW) ih iw
       then v + d oh ow else v) v [0..OW - 1]) a [0..OH - 1] =
   foldl (\<lambda>acc (oh, ow). acc + d oh ow) a
     (covering_windows OH OW kW kH dW dH padW padH IH IW ih iw)"
proof -
  have one: "foldl (\<lambda>acc (oh, ow). acc + d oh ow) v
               (if window_covers (pool_window oh ow kW kH dW dH padW padH IH IW) ih iw
                then [(oh, ow)] else []) =
             (if window_covers (pool_window oh ow kW kH dW dH padW padH IH IW) ih iw
              then v + d oh ow else v)" for v oh ow
    by simp
  show ?thesis
    unfolding covering_windows_def foldl_concat_map one ..
qed

lemma backward_loops_accum:
  fixes g :: "('a::plus) list"
  assumes cell: "\<And>c oh ow u. length u = length g \<Longrightarrow> 0 \<le> c \<Longrightarrow> c < C \<Longrightarrow>
        0 \<le> oh \<Longrightarrow> oh < OH \<Longrightarrow> 0 \<le> ow \<Longrightarrow> ow < OW \<Longrightarrow>
        \<exists>u'. win c oh ow u = Inr u' \<and> length u' = length u \<and>
             u' ! p = (if c = c0 \<and> window_covers (pool_window oh ow kW kH dW dH padW padH IH IW) ih0 iw0
                       then u ! p + delta oh ow else u ! p)"
    and tgt: "0 \<le> c0" "c0 < C"
  shows "\<exists>g'. for_each [0..C - 1] (\<lambda>c.
                 for_each [0..OH - 1] (\<lambda>oh.
                   for_each [0..OW - 1] (win c oh))) g = Inr g' \<and>
              length g' = length g \<and>
              g' ! p = foldl (\<lambda>acc (oh, ow). acc + delta oh ow) (g ! p)
                         (covering_windows OH OW kW kH dW dH padW padH IH IW ih0 iw0)"
proof -
  define cov where "cov = (\<lambda>oh ow.
      window_covers (pool_window oh ow kW kH dW dH padW padH IH IW) ih0 iw0)"
  define fw where "fw = (\<lambda>c oh ow (v :: 'a). if c = c0 \<and> cov oh ow then v + delta oh ow else v)"
  define fh where "fh = (\<lambda>c oh (v :: 'a). foldl (\<lambda>a ow. fw c oh ow a) v [0..OW - 1])"
  define fc where "fc = (\<lambda>c (v :: 'a). foldl (\<lambda>a oh. fh c oh a) v [0..OH - 1])"
  have cell': "\<exists>u'. win c oh ow u = Inr u' \<and> length u' = length g \<and> u' ! p = fw c oh ow (u ! p)"
    if "length u = length g" "0 \<le> c" "c < C" "0 \<le> oh" "oh < OH" "0 \<le> ow" "ow < OW"
    for c oh ow and u :: "'a list"
    using cell[OF that] that(1) unfolding fw_def cov_def by auto
  have row: "\<exists>u'. for_each [0..OW - 1] (win c oh) u = Inr u' \<and> length u' = length g \<and>
                  u' ! p = fh c oh (u ! p)"
    if "length u = length g" "0 \<le> c" "c < C" "0 \<le> oh" "oh < OH" for c oh and u :: "'a list"
    unfolding fh_def
  proof (rule for_each_accum[where P = "\<lambda>u. length u = length g" and get = "\<lambda>u. u ! p"
        and f = "fw c oh"])
    show "length u = length g" by (rule that(1))
  next
    fix ow and v :: "'a list"
    assume "ow \<in> set [0..OW - 1]" and lv: "length v = length g"
    then have "0 \<le> ow" "ow < OW" by auto
    from cell'[OF lv that(2-5) this]
    show "\<exists>u'. win c oh ow v = Inr u' \<and> length u' = length g \<and> u' ! p = fw c oh ow (v ! p)" .
  qed
  have plane: "\<exists>u'. for_each [0..OH - 1] (\<lambda>oh. for_each [0..OW - 1] (win c oh)) u = Inr u' \<and>
                  length u' = length g \<and> u' ! p = fc c (u ! p)"
    if "length u = length g" "0 \<le> c" "c < C" for c and u :: "'a list"
    unfolding fc_def
  proof (rule for_each_accum[where P = "\<lambda>u. length u = length g" and get = "\<lambda>u. u ! p"
        and f = "fh c"])
    show "length u = length g" by (rule that(1))
  next
    fix oh and v :: "'a list"
    assume "oh \<in> set [0..OH - 1]" and lv: "length v = length g"
    then have "0 \<le> oh" "oh < OH" by auto
    from row[OF lv that(2,3) this]
    show "\<exists>u'. for_each [0..OW - 1] (win c oh) v = Inr u' \<and> length u' = length g \<and>
               u' ! p = fh c oh (v ! p)" .
  qed
  have all: "\<exists>g'. for_each [0..C - 1] (\<lambda>c. for_each [0..OH - 1] (\<lambda>oh.
                     for_each [0..OW - 1] (win c oh))) g = Inr g' \<and>
                  length g' = length g \<and>
                  g' ! p = foldl (\<lambda>a c. fc c a) (g ! p) [0..C - 1]"
  proof (rule for_each_accum[where P = "\<lambda>u. length u = length g" and get = "\<lambda>u. u ! p"
        and f = fc])
    show "length g = length g" by simp
  next
    fix c and v :: "'a list"
    assume "c \<in> set [0..C - 1]" and lv: "length v = length g"
    then have "0 \<le> c" "c < C" by auto
    from plane[OF lv this]
    show "\<exists>u'. for_each [0..OH - 1] (\<lambda>oh. for_each [0..OW - 1] (win c oh)) v = Inr u' \<and>
               length u' = length g \<and> u' ! p = fc c (v ! p)" .
  qed
  have other: "fc c v = v" if "c \<noteq> c0" for c v
    using that by (simp add: fc_def fh_def fw_def foldl_same)
  have "foldl (\<lambda>a c. fc c a) v [0..C - 1] = foldl (\<lambda>a c. if c = c0 then fc c0 a else a) v [0..C - 1]"
    for v
    by (rule foldl_cong_set) (simp add: other)
  then have "foldl (\<lambda>a c. fc c a) (g ! p) [0..C - 1] = fc c0 (g ! p)"
    unfolding foldl_upto_at using tgt by simp
  also have "\<dots> = foldl (\<lambda>acc (oh, ow). acc + delta oh ow) (g ! p)
                    (covering_windows OH OW kW kH dW dH padW padH IH IW ih0 iw0)"
    unfolding fc_def fh_def fw_def cov_def
    by (simp add: foldl_covering_windows)
  finally show ?thesis
    using all by auto
qed

lemma cpu_avg_pool_backward_loops:
  fixes g :: "('a::plus) list"
  assumes lg: "length g = nat (C * IH * IW)" and lgo: "length go = nat (C * OH * OW)"
    and tgt: "0 \<le> c0" "c0 < C" "0 \<le> ih0" "ih0 < IH" "0 \<le> iw0" "iw0 < IW"
    and nt: "\<And>oh ow. 0 \<le> oh \<Longrightarrow> oh < OH \<Longrightarrow> 0 \<le> ow \<Longrightarrow> ow < OW \<Longrightarrow>
               \<not> (traps \<and> pool_divide_factor dov cip
                              (pool_window oh ow kW kH dW dH padW padH IH IW) = 0)"
  shows "\<exists>g'. for_each [0..C - 1] (\<lambda>c.
                 for_each [0..OH - 1] (\<lambda>oh.
                   for_each [0..OW - 1] (\<lambda>ow.
                     cpu_avg_pool_backward_window sdiv traps go IH IW OH OW
                       kW kH dW dH padW padH cip dov c oh ow))) g = Inr g' \<and>
              length g' = length g \<and>
              g' ! nat (c0 * IH * IW + ih0 * IW + iw0) =
              foldl (\<lambda>acc (oh, ow).
                       acc + sdiv (go ! nat (c0 * OH * OW + oh * OW + ow))
                               (pool_divide_factor dov cip
                                  (pool_window oh ow kW kH dW dH padW padH IH IW)))
                (g ! nat (c0 * IH * IW + ih0 * IW + iw0))
                (covering_windows OH OW kW kH dW dH padW padH IH IW ih0 iw0)"
proof (rule backward_loops_accum[where
      win = "\<lambda>c oh ow. cpu_avg_pool_backward_window sdiv traps go IH IW OH OW
                       kW kH dW dH padW padH cip dov c oh ow"
      and delta = "\<lambda>oh ow. sdiv (go ! nat (c0 * OH * OW + oh * OW + ow))
                               (pool_divide_factor dov cip
                                  (pool_window oh ow kW kH dW dH padW padH IH IW))"])
  show "0 \<le> c0" "c0 < C" by (rule tgt)+
next
  fix c oh ow and u :: "'a list"
  assume a: "length u = length g" "0 \<le> c" "c < C" "0 \<le> oh" "oh < OH" "0 \<le> ow" "ow < OW"
  have lu: "length u = nat (C * IH * IW)" using a(1) lg by simp
  from cpu_avg_pool_backward_window_accum[OF a(2-7) lu lgo tgt(1,3-6) nt[OF a(4-7)], of sdiv]
  show "\<exists>u'. cpu_avg_pool_backward_window sdiv traps go IH IW OH OW
                kW kH dW dH padW padH cip dov c oh ow u = Inr u' \<and> length u' = length u \<and>
          u' ! nat (c0 * IH * IW + ih0 * IW + iw0) =
          (if c = c0 \<and> window_covers (pool_window oh ow kW kH dW dH padW padH IH IW) ih0 iw0
           then u ! nat (c0 * IH * IW + ih0 * IW + iw0) +
                sdiv (go ! nat (c0 * OH * OW + oh * OW + ow))
                  (pool_divide_factor dov cip (pool_window oh ow kW kH dW dH padW padH IH IW))
           else u ! nat (c0 * IH * IW + ih0 * IW + iw0))"
    by auto
qed


subsection \<open>The channels-last backward kernel\<close>

lemma cpu_avg_pool_backward_channels_last_window_accum:
  fixes g :: "('a::plus) list"
  assumes n: "0 \<le> n" "n < N" and oh: "0 \<le> oh" "oh < OH" and ow: "0 \<le> ow" "ow < OW"
    and lg: "length g = nat (N * IH * IW) * C" and lgo: "length go = nat (N * OH * OW) * C"
    and tgt: "0 \<le> n0" "0 \<le> ih0" "ih0 < IH" "0 \<le> iw0" "iw0 < IW" "c0 < C"
    and nt: "\<not> (traps \<and> pool_divide_factor dov cip
                            (pool_window oh ow kW kH dW dH padW padH IH IW) = 0)"
  shows "\<exists>g'. cpu_avg_pool_backward_channels_last_window sdiv traps go C IH IW OH OW
                kW kH dW dH padW padH cip dov n oh ow g = Inr g' \<and>
              length g' = length g \<and>
              g' ! (nat (n0 * IH * IW + ih0 * IW + iw0) * C + c0) =
              (if n = n0 \<and> window_covers (pool_window oh ow kW kH dW dH padW padH IH IW) ih0 iw0
               then g ! (nat (n0 * IH * IW + ih0 * IW + iw0) * C + c0) +
                    sdiv (go ! (nat (n0 * OH * OW + oh * OW + ow) * C + c0))
                      (pool_divide_factor dov cip (pool_window oh ow kW kH dW dH padW padH IH IW))
               else g ! (nat (n0 * IH * IW + ih0 * IW + iw0) * C + c0))"
proof -
  obtain a b a' b' ps where
    w: "pool_window oh ow kW kH dW dH padW padH IH IW = (a, b, a', b', ps)"
    by (metis prod_cases5)
  note bd = pool_window_bounds[OF w]
  let ?tq = "nat (n0 * IH * IW + ih0 * IW + iw0)"
  let ?p = "?tq * C + c0"
  let ?df = "pool_divide_factor dov cip (a, b, a', b', ps)"
  let ?qo = "nat (n * OH * OW + oh * OW + ow)"
  let ?delta = "sdiv (go ! (?qo * C + c0)) ?df"
  define cell where "cell = (\<lambda>ih iw (u :: 'a list).
      if 0 < C \<and>
         \<not> (0 \<le> n * IH * IW * int C + ih * IW * int C + iw * int C \<and>
            nat (n * IH * IW * int C + ih * IW * int C + iw * int C) + C \<le> length u \<and>
            0 \<le> n * OH * OW * int C + oh * OW * int C + ow * int C \<and>
            nat (n * OH * OW * int C + oh * OW * int C + ow * int C) + C \<le> length go)
      then Inl OutOfBounds
      else if traps \<and> ?df = 0 \<and> 0 < C then Inl DivisionByZero
      else Inr (lane_update
                  (\<lambda>d v. v + sdiv (go ! (nat (n * OH * OW * int C + oh * OW * int C + ow * int C) + d)) ?df)
                  (nat (n * IH * IW * int C + ih * IW * int C + iw * int C)) C u))"
  have unf: "cpu_avg_pool_backward_channels_last_window sdiv traps go C IH IW OH OW
                kW kH dW dH padW padH cip dov n oh ow g =
             for_each [a..a' - 1] (\<lambda>ih. for_each [b..b' - 1] (cell ih)) g"
    by (simp add: cpu_avg_pool_backward_channels_last_window_def Let_def w cell_def)
  have nt': "(traps \<and> ?df = 0 \<and> 0 < C) = False" using nt w by auto
  have Cpos: "0 < C" using tgt(6) by simp
  have go_nn: "0 \<le> n * OH * OW * int C + oh * OW * int C + ow * int C"
    using n oh ow by simp
  have go_eq: "nat (n * OH * OW * int C + oh * OW * int C + ow * int C) = ?qo * C"
  proof -
    have "n * OH * OW * int C + oh * OW * int C + ow * int C = (n * OH * OW + oh * OW + ow) * int C"
      by (simp add: algebra_simps)
    then show ?thesis
      using plane_index_less(1)[OF n oh ow] by (simp add: nat_mult_distrib)
  qed
  have go_in: "?qo * C + C \<le> length go"
  proof -
    have "Suc ?qo \<le> nat (N * OH * OW)" by (rule Suc_leI[OF plane_index_less(2)[OF n oh ow]])
    then have "Suc ?qo * C \<le> nat (N * OH * OW) * C" by (rule mult_le_mono1)
    then show ?thesis using lgo by simp
  qed
  have cell: "\<exists>u'. cell ih iw u = Inr u' \<and> length u' = length g \<and>
        u' ! ?p = (if n = n0 \<and> ih = ih0 \<and> iw = iw0 then u ! ?p + ?delta else u ! ?p)"
    if "length u = length g" "0 \<le> ih" "ih < IH" "0 \<le> iw" "iw < IW"
    for ih iw and u :: "'a list"
  proof -
    let ?q = "nat (n * IH * IW + ih * IW + iw)"
    have gi_nn: "0 \<le> n * IH * IW * int C + ih * IW * int C + iw * int C"
      using n that by simp
    have gi_eq: "nat (n * IH * IW * int C + ih * IW * int C + iw * int C) = ?q * C"
    proof -
      have "n * IH * IW * int C + ih * IW * int C + iw * int C = (n * IH * IW + ih * IW + iw) * int C"
        by (simp add: algebra_simps)
      then show ?thesis
        using plane_index_less(1)[OF n that(2-5)] by (simp add: nat_mult_distrib)
    qed
    have gi_in: "?q * C + C \<le> length u"
    proof -
      have "Suc ?q \<le> nat (N * IH * IW)"
        by (rule Suc_leI[OF plane_index_less(2)[OF n that(2-5)]])
      then have "Suc ?q * C \<le> nat (N * IH * IW) * C" by (rule mult_le_mono1)
      then show ?thesis using lg that(1) by simp
    qed
    have eq: "(?q = ?tq) = (n = n0 \<and> ih = ih0 \<and> iw = iw0)"
      using plane_index_eq[OF n(1) that(2-5) tgt(1-5)] .
    have run: "cell ih iw u =
        Inr (lane_update (\<lambda>d v. v + sdiv (go ! (?qo * C + d)) ?df) (?q * C) C u)"
      unfolding cell_def gi_eq go_eq nt' using gi_nn go_nn gi_in go_in by simp
    have val: "lane_update (\<lambda>d v. v + sdiv (go ! (?qo * C + d)) ?df) (?q * C) C u ! ?p =
        (if ?q = ?tq then u ! ?p + ?delta else u ! ?p)"
    proof (cases "?q = ?tq")
      case True
      show ?thesis
        using lane_update_inside[OF gi_in tgt(6),
            of "\<lambda>d v. v + sdiv (go ! (?qo * C + d)) ?df"] True by simp
    next
      case False
      have "?p < ?q * C \<or> ?q * C + C \<le> ?p" using lane_apart[OF False tgt(6)] .
      then show ?thesis using False by (simp add: lane_update_outside)
    qed
    show ?thesis unfolding run using val eq that(1) by simp
  qed
  have row: "\<exists>u'. for_each [b..b' - 1] (cell ih) u = Inr u' \<and> length u' = length g \<and>
        u' ! ?p = (if n = n0 \<and> ih = ih0 \<and> b \<le> iw0 \<and> iw0 \<le> b' - 1
                   then u ! ?p + ?delta else u ! ?p)"
    if "length u = length g" "0 \<le> ih" "ih < IH" for ih and u :: "'a list"
  proof -
    have "\<exists>u'. for_each [b..b' - 1] (cell ih) u = Inr u' \<and> length u' = length g \<and>
        (\<lambda>u. u ! ?p) u' =
        foldl (\<lambda>v iw. if iw = iw0 then (if n = n0 \<and> ih = ih0 then v + ?delta else v) else v)
          ((\<lambda>u. u ! ?p) u) [b..b' - 1]"
    proof (rule for_each_accum[where P = "\<lambda>u. length u = length g"
          and f = "\<lambda>iw v. if iw = iw0 then (if n = n0 \<and> ih = ih0 then v + ?delta else v) else v"])
      show "length u = length g" by (rule that(1))
    next
      fix iw and v :: "'a list"
      assume iw: "iw \<in> set [b..b' - 1]" and lv: "length v = length g"
      have "0 \<le> iw" "iw < IW" using iw bd by auto
      from cell[OF lv that(2,3) this]
      show "\<exists>u'. cell ih iw v = Inr u' \<and> length u' = length g \<and>
          u' ! ?p = (if iw = iw0 then (if n = n0 \<and> ih = ih0 then v ! ?p + ?delta else v ! ?p)
                     else v ! ?p)"
        by auto
    qed
    then show ?thesis unfolding foldl_upto_at by auto
  qed
  have "\<exists>g'. for_each [a..a' - 1] (\<lambda>ih. for_each [b..b' - 1] (cell ih)) g = Inr g' \<and>
      length g' = length g \<and>
      (\<lambda>u. u ! ?p) g' =
      foldl (\<lambda>v ih. if ih = ih0 then (if n = n0 \<and> b \<le> iw0 \<and> iw0 \<le> b' - 1 then v + ?delta else v)
                      else v)
        ((\<lambda>u. u ! ?p) g) [a..a' - 1]"
  proof (rule for_each_accum[where P = "\<lambda>u. length u = length g"
        and f = "\<lambda>ih v. if ih = ih0 then (if n = n0 \<and> b \<le> iw0 \<and> iw0 \<le> b' - 1 then v + ?delta else v)
                         else v"])
    show "length g = length g" by simp
  next
    fix ih and v :: "'a list"
    assume ih: "ih \<in> set [a..a' - 1]" and lv: "length v = length g"
    have "0 \<le> ih" "ih < IH" using ih bd by auto
    from row[OF lv this]
    show "\<exists>u'. for_each [b..b' - 1] (cell ih) v = Inr u' \<and> length u' = length g \<and>
        u' ! ?p = (if ih = ih0 then (if n = n0 \<and> b \<le> iw0 \<and> iw0 \<le> b' - 1 then v ! ?p + ?delta
                                     else v ! ?p)
                   else v ! ?p)"
      by auto
  qed
  then show ?thesis
    unfolding unf w foldl_upto_at by (auto simp add: window_covers_def)
qed

lemma cpu_avg_pool_backward_channels_last_loops:
  fixes g :: "('a::plus) list"
  assumes lg: "length g = nat (N * IH * IW) * C" and lgo: "length go = nat (N * OH * OW) * C"
    and tgt: "0 \<le> n0" "n0 < N" "0 \<le> ih0" "ih0 < IH" "0 \<le> iw0" "iw0 < IW" "c0 < C"
    and nt: "\<And>oh ow. 0 \<le> oh \<Longrightarrow> oh < OH \<Longrightarrow> 0 \<le> ow \<Longrightarrow> ow < OW \<Longrightarrow>
               \<not> (traps \<and> pool_divide_factor dov cip
                              (pool_window oh ow kW kH dW dH padW padH IH IW) = 0)"
  shows "\<exists>g'. for_each [0..N - 1] (\<lambda>n.
                 for_each [0..OH - 1] (\<lambda>oh.
                   for_each [0..OW - 1] (\<lambda>ow.
                     cpu_avg_pool_backward_channels_last_window sdiv traps go C IH IW OH OW
                       kW kH dW dH padW padH cip dov n oh ow))) g = Inr g' \<and>
              length g' = length g \<and>
              g' ! (nat (n0 * IH * IW + ih0 * IW + iw0) * C + c0) =
              foldl (\<lambda>acc (oh, ow).
                       acc + sdiv (go ! (nat (n0 * OH * OW + oh * OW + ow) * C + c0))
                               (pool_divide_factor dov cip
                                  (pool_window oh ow kW kH dW dH padW padH IH IW)))
                (g ! (nat (n0 * IH * IW + ih0 * IW + iw0) * C + c0))
                (covering_windows OH OW kW kH dW dH padW padH IH IW ih0 iw0)"
proof (rule backward_loops_accum[where
      win = "\<lambda>n oh ow. cpu_avg_pool_backward_channels_last_window sdiv traps go C IH IW OH OW
                       kW kH dW dH padW padH cip dov n oh ow"
      and delta = "\<lambda>oh ow. sdiv (go ! (nat (n0 * OH * OW + oh * OW + ow) * C + c0))
                               (pool_divide_factor dov cip
                                  (pool_window oh ow kW kH dW dH padW padH IH IW))"])
  show "0 \<le> n0" "n0 < N" by (rule tgt)+
next
  fix n oh ow and u :: "'a list"
  assume a: "length u = length g" "0 \<le> n" "n < N" "0 \<le> oh" "oh < OH" "0 \<le> ow" "ow < OW"
  have lu: "length u = nat (N * IH * IW) * C" using a(1) lg by simp
  from cpu_avg_pool_backward_channels_last_window_accum[OF a(2-7) lu lgo tgt(1,3-7) nt[OF a(4-7)],
      of sdiv]
  show "\<exists>u'. cpu_avg_pool_backward_channels_last_window sdiv traps go C IH IW OH OW
                kW kH dW dH padW padH cip dov n oh ow u = Inr u' \<and> length u' = length u \<and>
          u' ! (nat (n0 * IH * IW + ih0 * IW + iw0) * C + c0) =
          (if n = n0 \<and> window_covers (pool_window oh ow kW kH dW dH padW padH IH IW) ih0 iw0
           then u ! (nat (n0 * IH * IW + ih0 * IW + iw0) * C + c0) +
                sdiv (go ! (nat (n0 * OH * OW + oh * OW + ow) * C + c0))
                  (pool_divide_factor dov cip (pool_window oh ow kW kH dW dH padW padH IH IW))
           else u ! (nat (n0 * IH * IW + ih0 * IW + iw0) * C + c0))"
    by auto
qed


subsection \<open>Layouts\<close>

lemma list_all2_less4:
  "list_all2 (<) idx [N, C, H, W] = (\<exists>n c h w. idx = [n, c, h, w] \<and> n < N \<and> c < C \<and> h < H \<and> w < (W :: nat))"
  by (auto simp add: list_all2_Cons2)

lemma list_all2_less3:
  "list_all2 (<) idx [C, H, W] = (\<exists>c h w. idx = [c, h, w] \<and> c < C \<and> h < H \<and> w < (W :: nat))"
  by (auto simp add: list_all2_Cons2)

lemma physical_offset_channels_last:
  "physical_offset ChannelsLast [N, C, H, W] [n, c, h, w] = row_major [N, H, W, C] [n, h, w, c]"
  by (simp add: physical_offset_def row_major_def)

lemma physical_offset_row_major:
  assumes "fmt \<noteq> ChannelsLast \<or> length sz \<noteq> 4"
  shows "physical_offset fmt sz idx = row_major sz idx"
proof -
  have "\<not> (fmt = ChannelsLast \<and> (\<exists>N C H W. sz = [N, C, H, W]))" using assms by auto
  then show ?thesis
    by (auto simp add: physical_offset_def split: MemoryFormat.splits list.splits)
qed

lemma logical_index_row_major:
  assumes "fmt \<noteq> ChannelsLast \<or> length sz \<noteq> 4"
  shows "logical_index fmt sz k = snd (data_index_init k sz)"
proof -
  have "\<not> (fmt = ChannelsLast \<and> (\<exists>N C H W. sz = [N, C, H, W]))" using assms by auto
  then show ?thesis
    by (auto simp add: logical_index_def split: MemoryFormat.splits list.splits)
qed

lemma physical_offset_less:
  assumes "list_all2 (<) idx sz"
  shows "physical_offset fmt sz idx < prod_list sz"
proof (cases "fmt = ChannelsLast \<and> length sz = 4")
  case False
  then show ?thesis
    using row_major_less[OF assms] by (simp add: physical_offset_row_major)
next
  case True
  then obtain N C H W where sz: "sz = [N, C, H, W]"
    by (auto simp add: length_Suc_conv numeral_eq_Suc)
  from assms obtain n c h w where i: "idx = [n, c, h, w]" "n < N" "c < C" "h < H" "w < W"
    unfolding sz list_all2_less4 by auto
  have "list_all2 (<) [n, h, w, c] [N, H, W, C]" using i by simp
  from row_major_less[OF this] show ?thesis
    using True unfolding sz i(1) by (simp add: physical_offset_channels_last mult_ac)
qed

lemma logical_physical:
  assumes "list_all2 (<) idx sz"
  shows "logical_index fmt sz (physical_offset fmt sz idx) = idx"
proof (cases "fmt = ChannelsLast \<and> length sz = 4")
  case False
  then show ?thesis
    using decode_row_major[OF assms] by (simp add: physical_offset_row_major logical_index_row_major)
next
  case True
  then obtain N C H W where sz: "sz = [N, C, H, W]"
    by (auto simp add: length_Suc_conv numeral_eq_Suc)
  from assms obtain n c h w where i: "idx = [n, c, h, w]" "n < N" "c < C" "h < H" "w < W"
    unfolding sz list_all2_less4 by auto
  have "list_all2 (<) [n, h, w, c] [N, H, W, C]" using i by simp
  have fmt: "fmt = ChannelsLast" using True by simp
  have "snd (data_index_init (row_major [N, H, W, C] [n, h, w, c]) [N, H, W, C]) = [n, h, w, c]"
    by (rule decode_row_major) (simp add: i)
  then show ?thesis
    unfolding sz i(1) fmt physical_offset_channels_last
    by (simp add: logical_index_def)
qed

lemma sizes_contiguous [simp]: "sizes (contiguous t fmt) = sizes t"
  by (simp add: contiguous_def)

lemma scalar_type_of_contiguous [simp]: "scalar_type (contiguous t fmt) = scalar_type t"
  by (simp add: contiguous_def)

lemma memory_format_of_contiguous [simp]: "memory_format (contiguous t fmt) = fmt"
  by (simp add: contiguous_def)

lemma size_at_contiguous [simp]: "size_at (contiguous t fmt) k = size_at t k"
  by (simp add: size_at_def)

lemma ndimension_contiguous [simp]: "ndimension (contiguous t fmt) = ndimension t"
  by (simp add: ndimension_def)

lemma length_data_contiguous:
  assumes "length (data t) = prod_list (sizes t)"
  shows "length (data (contiguous t fmt)) = prod_list (sizes t)"
  using assms by (simp add: contiguous_def)

lemma element_at_contiguous:
  assumes "list_all2 (<) idx (sizes t)"
  shows "element_at (contiguous t fmt) idx = element_at t idx"
proof (cases "memory_format t = fmt")
  case True
  then show ?thesis by (simp add: contiguous_def)
next
  case False
  have "element_at (contiguous t fmt) idx =
        map (\<lambda>k. data t ! physical_offset (memory_format t) (sizes t) (logical_index fmt (sizes t) k))
          [0..<prod_list (sizes t)] ! physical_offset fmt (sizes t) idx"
    using False by (simp add: element_at_def contiguous_def)
  also have "\<dots> = data t ! physical_offset (memory_format t) (sizes t)
                       (logical_index fmt (sizes t) (physical_offset fmt (sizes t) idx))"
    using physical_offset_less[OF assms, of fmt] by simp
  finally show ?thesis
    unfolding logical_physical[OF assms] by (simp add: element_at_def)
qed

lemma write_back_returns:
  "\<exists>t. write_back gi (contiguous gi fmt) fmt (Inr d) = Inr t \<and>
       sizes t = sizes gi \<and> memory_format t = memory_format gi \<and>
       scalar_type t = scalar_type gi"
  by (simp add: write_back_def copy_into_def contiguous_def)

lemma write_back_contiguous:
  assumes "list_all2 (<) idx (sizes gi)"
  shows "write_back gi (contiguous gi fmt) fmt (Inr d) = Inr t \<Longrightarrow>
         element_at t idx = d ! physical_offset fmt (sizes gi) idx"
proof -
  show "element_at t idx = d ! physical_offset fmt (sizes gi) idx"
    if r: "write_back gi (contiguous gi fmt) fmt (Inr d) = Inr t"
  proof (cases "memory_format gi = fmt")
    case True
    then show ?thesis using r by (auto simp add: write_back_def contiguous_def element_at_def)
  next
    case False
    let ?x = "(contiguous gi fmt)\<lparr>data := d\<rparr>"
    have t: "t = gi\<lparr>data := data (contiguous ?x (memory_format gi))\<rparr>"
      using r False by (simp add: write_back_def copy_into_def)
    have sx: "sizes ?x = sizes gi" by simp
    have "element_at t idx = element_at (contiguous ?x (memory_format gi)) idx"
      unfolding t by (simp add: element_at_def)
    also have "\<dots> = element_at ?x idx"
      by (rule element_at_contiguous) (simp add: assms)
    finally show ?thesis by (simp add: element_at_def)
  qed
qed

lemma write_back_length:
  assumes "write_back gi (contiguous gi fmt) fmt (Inr d) = Inr t" "length d = prod_list (sizes gi)"
  shows "length (data t) = prod_list (sizes gi)"
  using assms by (auto simp add: write_back_def copy_into_def contiguous_def split: if_splits)


subsection \<open>The backward kernels on tensors\<close>

lemma nat_plane:
  "nat (int p * int H * int W + int h * int W + int w) = (p * H + h) * W + w"
proof -
  have "int p * int H * int W + int h * int W + int w = int ((p * H + h) * W + w)"
    by (simp add: algebra_simps)
  then show ?thesis by (simp only: nat_int)
qed

lemma nat_volume: "nat (int p * int H * int W) = p * H * W"
proof -
  have "int p * int H * int W = int (p * H * W)" by simp
  then show ?thesis by (simp only: nat_int)
qed

lemma cpu_avg_pool_backward_planes:
  fixes gi go :: "('a::plus) tensor"
  assumes fo: "memory_format go = Contiguous"
    and lg: "length (data gi) = prod_list (sizes gi)"
    and pg: "prod_list (sizes gi) = P * IH * IW"
    and lgo: "length (data go) = P * OH * OW"
    and P: "P = (if ndimension go = 3 then size_at go 0 else size_at go 0 * size_at go 1)"
    and sz: "IH = size_at gi (- 2)" "IW = size_at gi (- 1)"
            "OH = size_at go (- 2)" "OW = size_at go (- 1)"
    and pos: "0 < IH" "0 < IW"
    and nt: "\<And>oh ow. 0 \<le> oh \<Longrightarrow> oh < int OH \<Longrightarrow> 0 \<le> ow \<Longrightarrow> ow < int OW \<Longrightarrow>
               \<not> (traps \<and> pool_divide_factor dov cip
                              (pool_window oh ow kW kH dW dH padW padH (int IH) (int IW)) = 0)"
  shows "\<exists>d. cpu_avg_pool_backward sdiv traps gi go kW kH dW dH padW padH cip dov =
               write_back gi (contiguous gi Contiguous) Contiguous (Inr d) \<and>
             length d = prod_list (sizes gi) \<and>
             (\<forall>p ih iw. p < P \<longrightarrow> ih < IH \<longrightarrow> iw < IW \<longrightarrow>
                d ! ((p * IH + ih) * IW + iw) =
                foldl (\<lambda>acc (oh, ow).
                         acc + sdiv (data go ! nat (int p * int OH * int OW + oh * int OW + ow))
                                 (pool_divide_factor dov cip
                                    (pool_window oh ow kW kH dW dH padW padH (int IH) (int IW))))
                  (data (contiguous gi Contiguous) ! ((p * IH + ih) * IW + iw))
                  (covering_windows (int OH) (int OW) kW kH dW dH padW padH (int IH) (int IW)
                     (int ih) (int iw)))"
proof -
  let ?gd = "data (contiguous gi Contiguous)"
  define loops where "loops = (\<lambda>C :: int. for_each [0..C - 1] (\<lambda>c.
                 for_each [0..int OH - 1] (\<lambda>oh.
                   for_each [0..int OW - 1] (\<lambda>ow.
                     cpu_avg_pool_backward_window sdiv traps (data go) (int IH) (int IW)
                       (int OH) (int OW) kW kH dW dH padW padH cip dov c oh ow))))"
  have lgd: "length ?gd = nat (int P * int IH * int IW)"
    using length_data_contiguous[OF lg, of Contiguous] pg by (simp only: nat_volume)
  have lgo': "length (data go) = nat (int P * int OH * int OW)"
    using lgo by (simp only: nat_volume)
  have run: "cpu_avg_pool_backward sdiv traps gi go kW kH dW dH padW padH cip dov =
             write_back gi (contiguous gi Contiguous) Contiguous
               (if 0 < P then loops (int P) ?gd else Inr ?gd)"
    unfolding cpu_avg_pool_backward_def Let_def contiguous_same[OF fo] parallel_for_def loops_def
      size_at_contiguous P[symmetric] sz[symmetric]
    by simp
  have tgt: "\<exists>d. loops (int P) ?gd = Inr d \<and> length d = length ?gd \<and>
        d ! ((p * IH + ih) * IW + iw) =
        foldl (\<lambda>acc (oh, ow).
                 acc + sdiv (data go ! nat (int p * int OH * int OW + oh * int OW + ow))
                         (pool_divide_factor dov cip
                            (pool_window oh ow kW kH dW dH padW padH (int IH) (int IW))))
          (?gd ! ((p * IH + ih) * IW + iw))
          (covering_windows (int OH) (int OW) kW kH dW dH padW padH (int IH) (int IW)
             (int ih) (int iw))"
    if "p < P" "ih < IH" "iw < IW" for p ih iw
  proof -
    have t: "0 \<le> int p" "int p < int P" "0 \<le> int ih" "int ih < int IH" "0 \<le> int iw" "int iw < int IW"
      using that by simp_all
    from cpu_avg_pool_backward_loops[OF lgd lgo' t nt, of sdiv]
    show ?thesis unfolding loops_def nat_plane by simp
  qed
  show ?thesis
  proof (cases "0 < P")
    case False
    then show ?thesis unfolding run using length_data_contiguous[OF lg, of Contiguous]
      by (intro exI[of _ ?gd]) simp
  next
    case True
    from tgt[OF True pos] obtain d where d: "loops (int P) ?gd = Inr d" "length d = length ?gd"
      by auto
    have "d ! ((p * IH + ih) * IW + iw) =
        foldl (\<lambda>acc (oh, ow).
                 acc + sdiv (data go ! nat (int p * int OH * int OW + oh * int OW + ow))
                         (pool_divide_factor dov cip
                            (pool_window oh ow kW kH dW dH padW padH (int IH) (int IW))))
          (?gd ! ((p * IH + ih) * IW + iw))
          (covering_windows (int OH) (int OW) kW kH dW dH padW padH (int IH) (int IW)
             (int ih) (int iw))"
      if "p < P" "ih < IH" "iw < IW" for p ih iw
      using tgt[OF that] d(1) by auto
    then show ?thesis
      unfolding run using True d length_data_contiguous[OF lg, of Contiguous] by auto
  qed
qed

lemma nat_lane:
  "nat (int n * int H * int W + int h * int W + int w) * C + c = ((n * H + h) * W + w) * C + c"
  by (simp only: nat_plane)

lemma cpu_avg_pool_backward_channels_last_lanes:
  fixes gi go :: "('a::plus) tensor"
  assumes fo: "memory_format go = ChannelsLast"
    and lg: "length (data gi) = prod_list (sizes gi)"
    and pg: "prod_list (sizes gi) = N * IH * IW * C"
    and lgo: "length (data go) = N * OH * OW * C"
    and sz: "N = size_at gi 0" "C = size_at gi 1" "IH = size_at gi 2" "IW = size_at gi 3"
            "OH = size_at go 2" "OW = size_at go 3"
    and pos: "0 < IH" "0 < IW" "0 < C"
    and nt: "\<And>oh ow. 0 \<le> oh \<Longrightarrow> oh < int OH \<Longrightarrow> 0 \<le> ow \<Longrightarrow> ow < int OW \<Longrightarrow>
               \<not> (traps \<and> pool_divide_factor dov cip
                              (pool_window oh ow kW kH dW dH padW padH (int IH) (int IW)) = 0)"
  shows "\<exists>d. cpu_avg_pool_backward_channels_last sdiv traps gi go kW kH dW dH padW padH cip dov =
               write_back gi (contiguous gi ChannelsLast) ChannelsLast (Inr d) \<and>
             length d = prod_list (sizes gi) \<and>
             (\<forall>n c ih iw. n < N \<longrightarrow> c < C \<longrightarrow> ih < IH \<longrightarrow> iw < IW \<longrightarrow>
                d ! (((n * IH + ih) * IW + iw) * C + c) =
                foldl (\<lambda>acc (oh, ow).
                         acc + sdiv (data go ! (nat (int n * int OH * int OW + oh * int OW + ow) * C + c))
                                 (pool_divide_factor dov cip
                                    (pool_window oh ow kW kH dW dH padW padH (int IH) (int IW))))
                  (data (contiguous gi ChannelsLast) ! (((n * IH + ih) * IW + iw) * C + c))
                  (covering_windows (int OH) (int OW) kW kH dW dH padW padH (int IH) (int IW)
                     (int ih) (int iw)))"
proof -
  let ?gd = "data (contiguous gi ChannelsLast)"
  define loops where "loops = (\<lambda>M :: int. for_each [0..M - 1] (\<lambda>n.
                 for_each [0..int OH - 1] (\<lambda>oh.
                   for_each [0..int OW - 1] (\<lambda>ow.
                     cpu_avg_pool_backward_channels_last_window sdiv traps (data go) C
                       (int IH) (int IW) (int OH) (int OW)
                       kW kH dW dH padW padH cip dov n oh ow))))"
  have lgd: "length ?gd = nat (int N * int IH * int IW) * C"
    using length_data_contiguous[OF lg, of ChannelsLast] pg by (simp only: nat_volume)
  have lgo': "length (data go) = nat (int N * int OH * int OW) * C"
    using lgo by (simp only: nat_volume)
  have run: "cpu_avg_pool_backward_channels_last sdiv traps gi go kW kH dW dH padW padH cip dov =
             write_back gi (contiguous gi ChannelsLast) ChannelsLast
               (if 0 < N then loops (int N) ?gd else Inr ?gd)"
    unfolding cpu_avg_pool_backward_channels_last_def Let_def contiguous_same[OF fo]
      parallel_for_def loops_def size_at_contiguous sz[symmetric]
    by simp
  have tgt: "\<exists>d. loops (int N) ?gd = Inr d \<and> length d = length ?gd \<and>
        d ! (((n * IH + ih) * IW + iw) * C + c) =
        foldl (\<lambda>acc (oh, ow).
                 acc + sdiv (data go ! (nat (int n * int OH * int OW + oh * int OW + ow) * C + c))
                         (pool_divide_factor dov cip
                            (pool_window oh ow kW kH dW dH padW padH (int IH) (int IW))))
          (?gd ! (((n * IH + ih) * IW + iw) * C + c))
          (covering_windows (int OH) (int OW) kW kH dW dH padW padH (int IH) (int IW)
             (int ih) (int iw))"
    if "n < N" "c < C" "ih < IH" "iw < IW" for n c ih iw
  proof -
    have t: "0 \<le> int n" "int n < int N" "0 \<le> int ih" "int ih < int IH" "0 \<le> int iw" "int iw < int IW"
      using that by simp_all
    from cpu_avg_pool_backward_channels_last_loops[OF lgd lgo' t that(2) nt, of sdiv]
    show ?thesis unfolding loops_def nat_lane by simp
  qed
  show ?thesis
  proof (cases "0 < N")
    case False
    then show ?thesis unfolding run using length_data_contiguous[OF lg, of ChannelsLast]
      by (intro exI[of _ ?gd]) simp
  next
    case True
    from tgt[OF True pos(3,1,2)] obtain d where
      d: "loops (int N) ?gd = Inr d" "length d = length ?gd"
      by auto
    have "d ! (((n * IH + ih) * IW + iw) * C + c) =
        foldl (\<lambda>acc (oh, ow).
                 acc + sdiv (data go ! (nat (int n * int OH * int OW + oh * int OW + ow) * C + c))
                         (pool_divide_factor dov cip
                            (pool_window oh ow kW kH dW dH padW padH (int IH) (int IW))))
          (?gd ! (((n * IH + ih) * IW + iw) * C + c))
          (covering_windows (int OH) (int OW) kW kH dW dH padW padH (int IH) (int IW)
             (int ih) (int iw))"
      if "n < N" "c < C" "ih < IH" "iw < IW" for n c ih iw
      using tgt[OF that] d(1) by auto
    then show ?thesis
      unfolding run using True d length_data_contiguous[OF lg, of ChannelsLast] by auto
  qed
qed


subsection \<open>The dispatcher on logical coordinates\<close>

lemma covering_windows_set:
  assumes "(oh, ow) \<in> set (covering_windows OH OW kW kH dW dH padW padH IH IW ih iw)"
  shows "0 \<le> oh" "oh < OH" "0 \<le> ow" "ow < OW"
    "window_covers (pool_window oh ow kW kH dW dH padW padH IH IW) ih iw"
  using assms by (auto simp add: covering_windows_def split: if_splits)

lemma foldl_covering_cong:
  assumes "\<And>oh ow. 0 \<le> oh \<Longrightarrow> oh < OH \<Longrightarrow> 0 \<le> ow \<Longrightarrow> ow < OW \<Longrightarrow> f oh ow = g oh ow"
  shows "foldl (\<lambda>acc (oh, ow). acc + sdiv (f oh ow) (df oh ow)) a
           (covering_windows OH OW kW kH dW dH padW padH IH IW ih iw) =
         foldl (\<lambda>acc (oh, ow). acc + sdiv (g oh ow) (df oh ow)) a
           (covering_windows OH OW kW kH dW dH padW padH IH IW ih iw)"
proof (rule foldl_cong_set)
  fix acc x
  assume x: "x \<in> set (covering_windows OH OW kW kH dW dH padW padH IH IW ih iw)"
  obtain oh ow where e: "x = (oh, ow)" by (cases x)
  from covering_windows_set(1-4)[OF x[unfolded e]] have "f oh ow = g oh ow" by (rule assms)
  then show "(case x of (oh, ow) \<Rightarrow> acc + sdiv (f oh ow) (df oh ow)) =
             (case x of (oh, ow) \<Rightarrow> acc + sdiv (g oh ow) (df oh ow))"
    unfolding e by simp
qed

lemma element_at_contiguous4:
  "memory_format t = Contiguous \<Longrightarrow> sizes t = [N, C, H, W] \<Longrightarrow>
   element_at t [n, c, h, w] = data t ! (((n * C + c) * H + h) * W + w)"
  by (simp add: element_at_def physical_offset_def row_major_def)

lemma element_at_channels_last4:
  "memory_format t = ChannelsLast \<Longrightarrow> sizes t = [N, C, H, W] \<Longrightarrow>
   element_at t [n, c, h, w] = data t ! (((n * H + h) * W + w) * C + c)"
  by (simp add: element_at_def physical_offset_def)

lemma element_at_contiguous3:
  "memory_format t = Contiguous \<Longrightarrow> sizes t = [C, H, W] \<Longrightarrow>
   element_at t [c, h, w] = data t ! ((c * H + h) * W + w)"
  by (simp add: element_at_def physical_offset_def row_major_def)

lemma plane_less:
  fixes n c N C :: nat
  assumes "n < N" "c < C"
  shows "n * C + c < N * C"
proof -
  have "n * C + c < n * C + C" using assms by simp
  also have "\<dots> = Suc n * C" by simp
  also have "\<dots> \<le> N * C" using assms by (intro mult_le_mono1) simp
  finally show ?thesis .
qed

lemma size_at_rank4:
  assumes "sizes t = [N, C, H, W]"
  shows "size_at t 0 = N" "size_at t 1 = C" "size_at t 2 = H" "size_at t 3 = W"
    "size_at t (- 2) = H" "size_at t (- 1) = W" "size_at t (- 3) = C" "size_at t (- 4) = N"
    "ndimension t = 4"
  using assms by (simp_all add: size_at_def ndimension_def)

lemma size_at_rank3:
  assumes "sizes t = [C, H, W]"
  shows "size_at t 0 = C" "size_at t 1 = H" "size_at t 2 = W"
    "size_at t (- 2) = H" "size_at t (- 1) = W" "size_at t (- 3) = C"
    "ndimension t = 3"
  using assms by (simp_all add: size_at_def ndimension_def)


lemma backward_kernel_rank4:
  fixes gi go :: "('a::{zero,plus}) tensor" and nm :: "('a, 'f) numerics"
  assumes sgi: "sizes gi = [N, C, IH, IW]" and sgo: "sizes go = [N, C, OH, OW]"
    and lg: "length (data gi) = prod_list (sizes gi)"
    and lgo: "length (data go) = prod_list (sizes go)"
    and fo: "memory_format go = Contiguous \<or> memory_format go = ChannelsLast"
    and kind: "AT_DISPATCH_FLOATING_TYPES_AND2 kLong kBFloat16 (scalar_type go)"
    and pos: "0 < C" "0 < IH" "0 < IW"
    and nt: "\<And>oh ow. 0 \<le> oh \<Longrightarrow> oh < int OH \<Longrightarrow> 0 \<le> ow \<Longrightarrow> ow < int OW \<Longrightarrow>
               \<not> (scalar_type go = kLong \<and> pool_divide_factor dov cip
                              (pool_window oh ow kW kH dW dH padW padH (int IH) (int IW)) = 0)"
  shows "\<exists>t. avg_pool2d_backward_kernel_impl nm gi go kW kH dW dH padW padH cip dov = Inr t \<and>
             sizes t = sizes gi \<and> memory_format t = memory_format gi \<and>
             scalar_type t = scalar_type gi \<and> length (data t) = prod_list (sizes gi) \<and>
             (\<forall>n c ih iw. n < N \<longrightarrow> c < C \<longrightarrow> ih < IH \<longrightarrow> iw < IW \<longrightarrow>
                element_at t [n, c, ih, iw] =
                foldl (\<lambda>acc (oh, ow).
                         acc + scalar_div nm (element_at go [n, c, nat oh, nat ow])
                                 (pool_divide_factor dov cip
                                    (pool_window oh ow kW kH dW dH padW padH (int IH) (int IW))))
                  (element_at gi [n, c, ih, iw])
                  (covering_windows (int OH) (int OW) kW kH dW dH padW padH (int IH) (int IW)
                     (int ih) (int iw)))"
proof -
  note si = size_at_rank4[OF sgi] and so = size_at_rank4[OF sgo]
  let ?df = "\<lambda>oh ow. pool_divide_factor dov cip
                          (pool_window oh ow kW kH dW dH padW padH (int IH) (int IW))"
  let ?cw = "\<lambda>ih iw. covering_windows (int OH) (int OW) kW kH dW dH padW padH (int IH) (int IW)
                         (int ih) (int iw)"
  have bounded: "list_all2 (<) [n, c, ih, iw] (sizes gi)"
    if "n < N" "c < C" "ih < IH" "iw < IW" for n c ih iw
    using that by (simp add: sgi)
  from fo show ?thesis
  proof
    assume f: "memory_format go = Contiguous"
    have run: "avg_pool2d_backward_kernel_impl nm gi go kW kH dW dH padW padH cip dov =
               cpu_avg_pool_backward (scalar_div nm) (scalar_type go = kLong) gi go
                 kW kH dW dH padW padH cip dov"
      using kind by (simp add: avg_pool2d_backward_kernel_impl_def suggest_memory_format_def f)
    have pg: "prod_list (sizes gi) = (N * C) * IH * IW" by (simp add: sgi)
    have lgo': "length (data go) = (N * C) * OH * OW" using lgo by (simp add: sgo)
    have P: "N * C = (if ndimension go = 3 then size_at go 0 else size_at go 0 * size_at go 1)"
      by (simp add: so)
    from cpu_avg_pool_backward_planes[OF f lg pg lgo' P si(5)[symmetric] si(6)[symmetric]
        so(5)[symmetric] so(6)[symmetric] pos(2,3) nt, of "scalar_div nm"]
    obtain d where d: "cpu_avg_pool_backward (scalar_div nm) (scalar_type go = kLong) gi go
                 kW kH dW dH padW padH cip dov =
               write_back gi (contiguous gi Contiguous) Contiguous (Inr d)"
      "length d = prod_list (sizes gi)"
      and v: "\<And>p ih iw. p < N * C \<Longrightarrow> ih < IH \<Longrightarrow> iw < IW \<Longrightarrow>
                d ! ((p * IH + ih) * IW + iw) =
                foldl (\<lambda>acc (oh, ow).
                         acc + scalar_div nm (data go ! nat (int p * int OH * int OW + oh * int OW + ow))
                                 (?df oh ow))
                  (data (contiguous gi Contiguous) ! ((p * IH + ih) * IW + iw)) (?cw ih iw)"
      by blast
    obtain t where t: "write_back gi (contiguous gi Contiguous) Contiguous (Inr d) = Inr t"
      "sizes t = sizes gi" "memory_format t = memory_format gi" "scalar_type t = scalar_type gi"
      using write_back_returns[of gi Contiguous d] by blast
    have lt: "length (data t) = prod_list (sizes gi)"
      by (rule write_back_length[OF t(1) d(2)])
    have val: "element_at t [n, c, ih, iw] =
                foldl (\<lambda>acc (oh, ow).
                         acc + scalar_div nm (element_at go [n, c, nat oh, nat ow]) (?df oh ow))
                  (element_at gi [n, c, ih, iw]) (?cw ih iw)"
      if b: "n < N" "c < C" "ih < IH" "iw < IW" for n c ih iw
    proof -
      have p: "n * C + c < N * C" by (rule plane_less[OF b(1,2)])
      have "element_at t [n, c, ih, iw] = d ! (((n * C + c) * IH + ih) * IW + iw)"
        unfolding write_back_contiguous[OF bounded[OF b] t(1)]
        by (simp add: sgi physical_offset_def row_major_def)
      also have "\<dots> = foldl (\<lambda>acc (oh, ow).
                         acc + scalar_div nm
                                 (data go ! nat (int (n * C + c) * int OH * int OW + oh * int OW + ow))
                                 (?df oh ow))
                  (data (contiguous gi Contiguous) ! (((n * C + c) * IH + ih) * IW + iw)) (?cw ih iw)"
        by (rule v[OF p b(3,4)])
      also have "data (contiguous gi Contiguous) ! (((n * C + c) * IH + ih) * IW + iw) =
                 element_at (contiguous gi Contiguous) [n, c, ih, iw]"
        by (simp add: element_at_contiguous4 sgi)
      also have "\<dots> = element_at gi [n, c, ih, iw]"
        by (rule element_at_contiguous[OF bounded[OF b]])
      also have "foldl (\<lambda>acc (oh, ow).
                         acc + scalar_div nm
                                 (data go ! nat (int (n * C + c) * int OH * int OW + oh * int OW + ow))
                                 (?df oh ow))
                  (element_at gi [n, c, ih, iw]) (?cw ih iw) =
                foldl (\<lambda>acc (oh, ow).
                         acc + scalar_div nm (element_at go [n, c, nat oh, nat ow]) (?df oh ow))
                  (element_at gi [n, c, ih, iw]) (?cw ih iw)"
      proof (rule foldl_covering_cong[where
            f = "\<lambda>oh ow. data go ! nat (int (n * C + c) * int OH * int OW + oh * int OW + ow)"
            and g = "\<lambda>oh ow. element_at go [n, c, nat oh, nat ow]"])
        fix oh ow :: int
        assume o: "0 \<le> oh" "oh < int OH" "0 \<le> ow" "ow < int OW"
        have "int (n * C + c) * int OH * int OW + oh * int OW + ow =
              int (n * C + c) * int OH * int OW + int (nat oh) * int OW + int (nat ow)"
          using o by simp
        then show "data go ! nat (int (n * C + c) * int OH * int OW + oh * int OW + ow) =
                   element_at go [n, c, nat oh, nat ow]"
          unfolding element_at_contiguous4[OF f sgo] by (simp only: nat_plane)
      qed
      finally show ?thesis .
    qed
    show ?thesis
      unfolding run d(1) using t lt val by auto
  next
    assume f: "memory_format go = ChannelsLast"
    have run: "avg_pool2d_backward_kernel_impl nm gi go kW kH dW dH padW padH cip dov =
               cpu_avg_pool_backward_channels_last (scalar_div nm) (scalar_type go = kLong) gi go
                 kW kH dW dH padW padH cip dov"
      using kind by (simp add: avg_pool2d_backward_kernel_impl_def suggest_memory_format_def f)
    have pg: "prod_list (sizes gi) = N * IH * IW * C" by (simp add: sgi)
    have lgo': "length (data go) = N * OH * OW * C" using lgo by (simp add: sgo)
    from cpu_avg_pool_backward_channels_last_lanes[OF f lg pg lgo' si(1)[symmetric] si(2)[symmetric]
        si(3)[symmetric] si(4)[symmetric] so(3)[symmetric] so(4)[symmetric] pos(2,3,1) nt,
        of "scalar_div nm"]
    obtain d where d: "cpu_avg_pool_backward_channels_last (scalar_div nm) (scalar_type go = kLong)
                 gi go kW kH dW dH padW padH cip dov =
               write_back gi (contiguous gi ChannelsLast) ChannelsLast (Inr d)"
      "length d = prod_list (sizes gi)"
      and v: "\<And>n c ih iw. n < N \<Longrightarrow> c < C \<Longrightarrow> ih < IH \<Longrightarrow> iw < IW \<Longrightarrow>
                d ! (((n * IH + ih) * IW + iw) * C + c) =
                foldl (\<lambda>acc (oh, ow).
                         acc + scalar_div nm
                                 (data go ! (nat (int n * int OH * int OW + oh * int OW + ow) * C + c))
                                 (?df oh ow))
                  (data (contiguous gi ChannelsLast) ! (((n * IH + ih) * IW + iw) * C + c))
                  (?cw ih iw)"
      by blast
    obtain t where t: "write_back gi (contiguous gi ChannelsLast) ChannelsLast (Inr d) = Inr t"
      "sizes t = sizes gi" "memory_format t = memory_format gi" "scalar_type t = scalar_type gi"
      using write_back_returns[of gi ChannelsLast d] by blast
    have lt: "length (data t) = prod_list (sizes gi)"
      by (rule write_back_length[OF t(1) d(2)])
    have val: "element_at t [n, c, ih, iw] =
                foldl (\<lambda>acc (oh, ow).
                         acc + scalar_div nm (element_at go [n, c, nat oh, nat ow]) (?df oh ow))
                  (element_at gi [n, c, ih, iw]) (?cw ih iw)"
      if b: "n < N" "c < C" "ih < IH" "iw < IW" for n c ih iw
    proof -
      have "element_at t [n, c, ih, iw] = d ! (((n * IH + ih) * IW + iw) * C + c)"
        unfolding write_back_contiguous[OF bounded[OF b] t(1)]
        by (simp add: sgi physical_offset_def)
      also have "\<dots> = foldl (\<lambda>acc (oh, ow).
                         acc + scalar_div nm
                                 (data go ! (nat (int n * int OH * int OW + oh * int OW + ow) * C + c))
                                 (?df oh ow))
                  (data (contiguous gi ChannelsLast) ! (((n * IH + ih) * IW + iw) * C + c))
                  (?cw ih iw)"
        by (rule v[OF b])
      also have "data (contiguous gi ChannelsLast) ! (((n * IH + ih) * IW + iw) * C + c) =
                 element_at (contiguous gi ChannelsLast) [n, c, ih, iw]"
        by (simp add: element_at_channels_last4 sgi)
      also have "\<dots> = element_at gi [n, c, ih, iw]"
        by (rule element_at_contiguous[OF bounded[OF b]])
      also have "foldl (\<lambda>acc (oh, ow).
                         acc + scalar_div nm
                                 (data go ! (nat (int n * int OH * int OW + oh * int OW + ow) * C + c))
                                 (?df oh ow))
                  (element_at gi [n, c, ih, iw]) (?cw ih iw) =
                foldl (\<lambda>acc (oh, ow).
                         acc + scalar_div nm (element_at go [n, c, nat oh, nat ow]) (?df oh ow))
                  (element_at gi [n, c, ih, iw]) (?cw ih iw)"
      proof (rule foldl_covering_cong[where
            f = "\<lambda>oh ow. data go ! (nat (int n * int OH * int OW + oh * int OW + ow) * C + c)"
            and g = "\<lambda>oh ow. element_at go [n, c, nat oh, nat ow]"])
        fix oh ow :: int
        assume o: "0 \<le> oh" "oh < int OH" "0 \<le> ow" "ow < int OW"
        have "int n * int OH * int OW + oh * int OW + ow =
              int n * int OH * int OW + int (nat oh) * int OW + int (nat ow)"
          using o by simp
        then show "data go ! (nat (int n * int OH * int OW + oh * int OW + ow) * C + c) =
                   element_at go [n, c, nat oh, nat ow]"
          unfolding element_at_channels_last4[OF f sgo] by (simp only: nat_plane)
      qed
      finally show ?thesis .
    qed
    show ?thesis
      unfolding run d(1) using t lt val by auto
  qed
qed


lemma backward_kernel_rank3:
  fixes gi go :: "('a::{zero,plus}) tensor" and nm :: "('a, 'f) numerics"
  assumes sgi: "sizes gi = [C, IH, IW]" and sgo: "sizes go = [C, OH, OW]"
    and lg: "length (data gi) = prod_list (sizes gi)"
    and lgo: "length (data go) = prod_list (sizes go)"
    and f: "memory_format go = Contiguous"
    and kind: "AT_DISPATCH_FLOATING_TYPES_AND2 kLong kBFloat16 (scalar_type go)"
    and pos: "0 < IH" "0 < IW"
    and nt: "\<And>oh ow. 0 \<le> oh \<Longrightarrow> oh < int OH \<Longrightarrow> 0 \<le> ow \<Longrightarrow> ow < int OW \<Longrightarrow>
               \<not> (scalar_type go = kLong \<and> pool_divide_factor dov cip
                              (pool_window oh ow kW kH dW dH padW padH (int IH) (int IW)) = 0)"
  shows "\<exists>t. avg_pool2d_backward_kernel_impl nm gi go kW kH dW dH padW padH cip dov = Inr t \<and>
             sizes t = sizes gi \<and> memory_format t = memory_format gi \<and>
             scalar_type t = scalar_type gi \<and> length (data t) = prod_list (sizes gi) \<and>
             (\<forall>c ih iw. c < C \<longrightarrow> ih < IH \<longrightarrow> iw < IW \<longrightarrow>
                element_at t [c, ih, iw] =
                foldl (\<lambda>acc (oh, ow).
                         acc + scalar_div nm (element_at go [c, nat oh, nat ow])
                                 (pool_divide_factor dov cip
                                    (pool_window oh ow kW kH dW dH padW padH (int IH) (int IW))))
                  (element_at gi [c, ih, iw])
                  (covering_windows (int OH) (int OW) kW kH dW dH padW padH (int IH) (int IW)
                     (int ih) (int iw)))"
proof -
  note si = size_at_rank3[OF sgi] and so = size_at_rank3[OF sgo]
  let ?df = "\<lambda>oh ow. pool_divide_factor dov cip
                          (pool_window oh ow kW kH dW dH padW padH (int IH) (int IW))"
  let ?cw = "\<lambda>ih iw. covering_windows (int OH) (int OW) kW kH dW dH padW padH (int IH) (int IW)
                         (int ih) (int iw)"
  have bounded: "list_all2 (<) [c, ih, iw] (sizes gi)"
    if "c < C" "ih < IH" "iw < IW" for c ih iw
    using that by (simp add: sgi)
  have run: "avg_pool2d_backward_kernel_impl nm gi go kW kH dW dH padW padH cip dov =
             cpu_avg_pool_backward (scalar_div nm) (scalar_type go = kLong) gi go
               kW kH dW dH padW padH cip dov"
    using kind by (simp add: avg_pool2d_backward_kernel_impl_def suggest_memory_format_def f)
  have pg: "prod_list (sizes gi) = C * IH * IW" by (simp add: sgi)
  have lgo': "length (data go) = C * OH * OW" using lgo by (simp add: sgo)
  have P: "C = (if ndimension go = 3 then size_at go 0 else size_at go 0 * size_at go 1)"
    by (simp add: so)
  from cpu_avg_pool_backward_planes[OF f lg pg lgo' P si(4)[symmetric] si(5)[symmetric]
      so(4)[symmetric] so(5)[symmetric] pos nt, of "scalar_div nm"]
  obtain d where d: "cpu_avg_pool_backward (scalar_div nm) (scalar_type go = kLong) gi go
               kW kH dW dH padW padH cip dov =
             write_back gi (contiguous gi Contiguous) Contiguous (Inr d)"
    "length d = prod_list (sizes gi)"
    and v: "\<And>p ih iw. p < C \<Longrightarrow> ih < IH \<Longrightarrow> iw < IW \<Longrightarrow>
              d ! ((p * IH + ih) * IW + iw) =
              foldl (\<lambda>acc (oh, ow).
                       acc + scalar_div nm (data go ! nat (int p * int OH * int OW + oh * int OW + ow))
                               (?df oh ow))
                (data (contiguous gi Contiguous) ! ((p * IH + ih) * IW + iw)) (?cw ih iw)"
    by blast
  obtain t where t: "write_back gi (contiguous gi Contiguous) Contiguous (Inr d) = Inr t"
    "sizes t = sizes gi" "memory_format t = memory_format gi" "scalar_type t = scalar_type gi"
    using write_back_returns[of gi Contiguous d] by blast
  have lt: "length (data t) = prod_list (sizes gi)"
    by (rule write_back_length[OF t(1) d(2)])
  have val: "element_at t [c, ih, iw] =
              foldl (\<lambda>acc (oh, ow).
                       acc + scalar_div nm (element_at go [c, nat oh, nat ow]) (?df oh ow))
                (element_at gi [c, ih, iw]) (?cw ih iw)"
    if b: "c < C" "ih < IH" "iw < IW" for c ih iw
  proof -
    have "element_at t [c, ih, iw] = d ! ((c * IH + ih) * IW + iw)"
      unfolding write_back_contiguous[OF bounded[OF b] t(1)]
      by (simp add: sgi physical_offset_def row_major_def)
    also have "\<dots> = foldl (\<lambda>acc (oh, ow).
                       acc + scalar_div nm
                               (data go ! nat (int c * int OH * int OW + oh * int OW + ow))
                               (?df oh ow))
                (data (contiguous gi Contiguous) ! ((c * IH + ih) * IW + iw)) (?cw ih iw)"
      by (rule v[OF b])
    also have "data (contiguous gi Contiguous) ! ((c * IH + ih) * IW + iw) =
               element_at (contiguous gi Contiguous) [c, ih, iw]"
      by (simp add: element_at_contiguous3 sgi)
    also have "\<dots> = element_at gi [c, ih, iw]"
      by (rule element_at_contiguous[OF bounded[OF b]])
    also have "foldl (\<lambda>acc (oh, ow).
                       acc + scalar_div nm
                               (data go ! nat (int c * int OH * int OW + oh * int OW + ow))
                               (?df oh ow))
                (element_at gi [c, ih, iw]) (?cw ih iw) =
              foldl (\<lambda>acc (oh, ow).
                       acc + scalar_div nm (element_at go [c, nat oh, nat ow]) (?df oh ow))
                (element_at gi [c, ih, iw]) (?cw ih iw)"
    proof (rule foldl_covering_cong[where
          f = "\<lambda>oh ow. data go ! nat (int c * int OH * int OW + oh * int OW + ow)"
          and g = "\<lambda>oh ow. element_at go [c, nat oh, nat ow]"])
      fix oh ow :: int
      assume o: "0 \<le> oh" "oh < int OH" "0 \<le> ow" "ow < int OW"
      have "int c * int OH * int OW + oh * int OW + ow =
            int c * int OH * int OW + int (nat oh) * int OW + int (nat ow)"
        using o by simp
      then show "data go ! nat (int c * int OH * int OW + oh * int OW + ow) =
                 element_at go [c, nat oh, nat ow]"
        unfolding element_at_contiguous3[OF f sgo] by (simp only: nat_plane)
    qed
    finally show ?thesis .
  qed
  show ?thesis
    unfolding run d(1) using t lt val by auto
qed

lemma element_at_zeros:
  assumes "list_all2 (<) idx sz"
  shows "element_at (zeros st sz fmt) idx = 0"
  using physical_offset_less[OF assms, of fmt] by (simp add: element_at_def zeros_def)

lemma zeros_fields [simp]:
  "sizes (zeros st sz fmt) = sz" "memory_format (zeros st sz fmt) = fmt"
  "scalar_type (zeros st sz fmt) = st" "length (data (zeros st sz fmt)) = prod_list sz"
  by (simp_all add: zeros_def)


subsection \<open>The backward entry point\<close>

lemma backward_entry_sized:
  assumes k: "length kernel_size = 1 \<or> length kernel_size = 2"
    and s: "stride = [] \<or> length stride = 1 \<or> length stride = 2"
    and p: "length padding = 1 \<or> length padding = 2"
    and r: "\<forall>v\<in>set (kernel_size @ stride @ padding). - (2 ^ 31) \<le> v \<and> v < 2 ^ 31"
    and v: "dov \<noteq> Some 0"
  shows "avg_pool2d_backward_out_cpu nm gradOutput input kernel_size stride padding cm cip dov =
         avg_pool2d_backward_out_cpu_sized nm gradOutput input
           (hd kernel_size) (last kernel_size)
           (if stride = [] then hd kernel_size else hd stride)
           (if stride = [] then last kernel_size else last stride)
           (hd padding) (last padding) cm cip dov"
proof -
  from k have kc: "(\<exists>a. kernel_size = [a]) \<or> (\<exists>a b. kernel_size = [a, b])"
    by (auto simp: length_Suc_conv numeral_2_eq_2)
  from s have sc: "stride = [] \<or> (\<exists>a. stride = [a]) \<or> (\<exists>a b. stride = [a, b])"
    by (auto simp: length_Suc_conv numeral_2_eq_2)
  from p have pc: "(\<exists>a. padding = [a]) \<or> (\<exists>a b. padding = [a, b])"
    by (auto simp: length_Suc_conv numeral_2_eq_2)
  have v': "dov = None \<or> the dov \<noteq> 0" using v by auto
  have dc: "safe_downcast x = Inr x" if "x \<in> set (kernel_size @ stride @ padding)" for x
    using r that by (simp add: safe_downcast_def)
  have kd: "bind (safe_downcast (kernel_size ! 0)) K = K (hd kernel_size)" for K :: "int \<Rightarrow> error + 'c"
    using kc dc by (auto simp add: bind_def)
  have kd2: "bind (if length kernel_size = 1 then Inr x else safe_downcast (kernel_size ! 1)) K =
             K (if length kernel_size = 1 then x else last kernel_size)"
    for K :: "int \<Rightarrow> error + 'c" and x
    using kc dc by (auto simp add: bind_def)
  have pd: "bind (safe_downcast (padding ! 0)) K = K (hd padding)" for K :: "int \<Rightarrow> error + 'c"
    using pc dc by (auto simp add: bind_def)
  have pd2: "bind (if length padding = 1 then Inr x else safe_downcast (padding ! 1)) K =
             K (if length padding = 1 then x else last padding)"
    for K :: "int \<Rightarrow> error + 'c" and x
    using pc dc by (auto simp add: bind_def)
  have sd: "bind (if stride = [] then Inr x else safe_downcast (stride ! 0)) K =
            K (if stride = [] then x else hd stride)"
    for K :: "int \<Rightarrow> error + 'c" and x
    using sc dc by (auto simp add: bind_def)
  have sd2: "bind (if stride = [] then Inr x else if length stride = 1 then Inr y
                   else safe_downcast (stride ! 1)) K =
             K (if stride = [] then x else if length stride = 1 then y else last stride)"
    for K :: "int \<Rightarrow> error + 'c" and x y
    using sc dc by (auto simp add: bind_def)
  have k1: "(if length kernel_size = 1 then hd kernel_size else last kernel_size) = last kernel_size"
    using kc by auto
  have p1: "(if length padding = 1 then hd padding else last padding) = last padding"
    using pc by auto
  have s1: "(if stride = [] then x else if length stride = 1 then (if stride = [] then y else hd stride)
             else last stride) = (if stride = [] then x else last stride)" for x y :: int
    using sc by auto
  show ?thesis
    unfolding avg_pool2d_backward_out_cpu_def kd kd2 pd pd2 sd sd2 k1 p1 s1
    using k s p v' by (simp add: check_def)
qed

lemma backward_shape_check_None:
  assumes "avg_pool2d_backward_shape_check input gradOutput nb kH kW dH dW padH padW
             (int (size_at input (- 3))) IH IW OH OW fmt = None"
  shows "ndimension input = 3 \<or> ndimension input = 4"
    "ndimension gradOutput = ndimension input"
    "0 < size_at input (- 3)" "0 < size_at input (- 2)" "0 < size_at input (- 1)"
    "size_at gradOutput (- 3) = size_at input (- 3)"
    "int (size_at gradOutput (- 2)) = OH" "int (size_at gradOutput (- 1)) = OW"
    "0 < kW" "0 < kH" "0 < dW" "0 < dH" "padW \<le> kW div 2" "padH \<le> kH div 2"
proof -
  have p: "pool2d_shape_check input kH kW dH dW padH padW 1 1
             (int (size_at input (- 3))) IH IW OH OW fmt = None"
    using assms by (simp add: avg_pool2d_backward_shape_check_def split: option.splits)
  have c: "check_dim_size gradOutput (ndimension input) (ndimension input - 3)
             (int (size_at input (- 3)))"
    "check_dim_size gradOutput (ndimension input) (ndimension input - 2) OH"
    "check_dim_size gradOutput (ndimension input) (ndimension input - 1) OW"
    using assms p by (simp_all add: avg_pool2d_backward_shape_check_def Let_def split: if_splits)
  from p show k: "0 < kW" "0 < kH" "0 < dW" "0 < dH" "padW \<le> kW div 2" "padH \<le> kH div 2"
    by (simp_all add: pool2d_shape_check_def Let_def split: if_splits)
  from p have l: "(ndimension input = 3 \<and> size_at input 0 \<noteq> 0 \<and> size_at input 1 \<noteq> 0 \<and>
                   size_at input 2 \<noteq> 0) \<or>
                  (ndimension input = 4 \<and> size_at input 1 \<noteq> 0 \<and> size_at input 2 \<noteq> 0 \<and>
                   size_at input 3 \<noteq> 0)"
    unfolding pool2d_shape_check_def Let_def by (auto split: if_splits)
  then show r: "ndimension input = 3 \<or> ndimension input = 4" by auto
  from l show "0 < size_at input (- 3)" "0 < size_at input (- 2)" "0 < size_at input (- 1)"
    by (auto simp add: size_at_def ndimension_def)
  from c show g: "ndimension gradOutput = ndimension input"
    by (simp add: check_dim_size_def)
  from c r g show "size_at gradOutput (- 3) = size_at input (- 3)"
    "int (size_at gradOutput (- 2)) = OH" "int (size_at gradOutput (- 1)) = OW"
    by (auto simp add: check_dim_size_def size_at_def ndimension_def)
qed


lemma wf_tensor_rank3_packed:
  assumes "wf_tensor t" "ndimension t = 3"
  shows "memory_format t = Contiguous"
  using assms by (cases "memory_format t") (simp_all add: wf_tensor_def ndimension_def)

lemma wf_tensor_rank4_layout:
  assumes "wf_tensor t" "ndimension t = 4"
  shows "memory_format t = Contiguous \<or> memory_format t = ChannelsLast"
  using assms by (cases "memory_format t") (simp_all add: wf_tensor_def ndimension_def)

lemma wf_tensor_length: "wf_tensor t \<Longrightarrow> length (data t) = prod_list (sizes t)"
  by (simp add: wf_tensor_def)

lemma backward_sized_run:
  assumes "3 \<le> ndimension input"
    and "pooling_output_shape (int (size_at input (- 1))) kW padW dW 1 cm = Inr OW"
    and "pooling_output_shape (int (size_at input (- 2))) kH padH dH 1 cm = Inr OH"
    and "avg_pool2d_backward_shape_check input gradOutput
           (int (if ndimension input = 4 then size_at input (- 4) else 1))
           kH kW dH dW padH padW (int (size_at input (- 3)))
           (int (size_at input (- 2))) (int (size_at input (- 1))) OH OW
           (suggest_memory_format input) = None"
    and "scalar_type gradOutput = scalar_type input"
  shows "avg_pool2d_backward_out_cpu_sized nm gradOutput input kH kW dH dW padH padW cm cip dov =
         avg_pool2d_backward_kernel_impl nm
           (zeros (scalar_type input) (sizes input) (memory_format input)) gradOutput
           kW kH dW dH padW padH cip dov"
  unfolding avg_pool2d_backward_out_cpu_sized_def Let_def
  using assms by (simp add: check_def bind_def suggest_memory_format_def)


lemma last_window_starts_inside:
  fixes I k p d M j :: int
  assumes k: "0 < k" and d: "0 < d" and p: "p \<le> k div 2" "0 \<le> p"
    and out: "pooling_output_shape I k p d 1 cm = Inr M" and o: "0 \<le> j" "j < M"
  shows "j * d - p < I"
proof -
  have pk: "p < k" using p(1) k by linarith
  define x where "x = I + p + p - 1 * (k - 1) - 1 + (if cm then d - 1 else 0)"
  have dm: "(x div d) * d \<le> x"
    using d by (simp add: minus_mod_eq_div_mult[symmetric])
  have od: "j * d \<le> (M - 1) * d" using o d by (intro mult_right_mono) simp_all
  have M: "M = (if cm \<and> (x div d) * d \<ge> I + p then x div d else x div d + 1)"
    using out d unfolding pooling_output_shape_def Let_def x_def by (simp split: if_splits)
  show ?thesis
  proof (cases "cm \<and> (x div d) * d \<ge> I + p")
    case True
    then have "M = x div d" unfolding M by (rule if_P)
    then have "M - 1 = x div d - 1" by simp
    then have "(M - 1) * d = (x div d) * d - d" by (simp add: algebra_simps)
    then have "(M - 1) * d \<le> x - d" using dm by simp
    moreover have "x - d = I + p + p - k - 1" using True by (simp add: x_def)
    ultimately show ?thesis using od pk by linarith
  next
    case False
    then have "M = x div d + 1" unfolding M by (rule if_not_P)
    then have e: "(M - 1) * d = (x div d) * d" by simp
    show ?thesis
    proof (cases cm)
      case True
      then have "(x div d) * d < I + p" using False by simp
      then show ?thesis using od e by linarith
    next
      case False
      then have "x = I + p + p - k" by (simp add: x_def)
      then show ?thesis using od e dm pk by linarith
    qed
  qed
qed

lemma pool_divide_factor_nonzero:
  assumes kH: "0 < kH" and dH: "0 < dH" and padH: "padH \<le> kH div 2" "0 \<le> padH" and IH: "0 < IH"
    and oH: "pooling_output_shape IH kH padH dH 1 cm = Inr OH" and oh: "0 \<le> oh" "oh < OH"
    and kW: "0 < kW" and dW: "0 < dW" and padW: "padW \<le> kW div 2" "0 \<le> padW" and IW: "0 < IW"
    and oW: "pooling_output_shape IW kW padW dW 1 cm = Inr OW" and ow: "0 \<le> ow" "ow < OW"
    and dov: "dov \<noteq> Some 0"
  shows "pool_divide_factor dov cip (pool_window oh ow kW kH dW dH padW padH IH IW) \<noteq> 0"
proof -
  have h: "oh * dH - padH < IH" by (rule last_window_starts_inside[OF kH dH padH oH oh])
  have w: "ow * dW - padW < IW" by (rule last_window_starts_inside[OF kW dW padW oW ow])
  have h0: "0 \<le> oh * dH" using oh dH by simp
  have w0: "0 \<le> ow * dW" using ow dW by simp
  have pH: "padH < kH" using padH(1) kH by linarith
  have pW: "padW < kW" using padW(1) kW by linarith
  define a where "a = oh * dH - padH"
  define b where "b = ow * dW - padW"
  have hh: "0 < min (a + kH) (IH + padH) - a" "0 < min (min (a + kH) (IH + padH)) IH - max a 0"
    using h h0 pH padH(2) kH IH unfolding a_def by linarith+
  have ww: "0 < min (b + kW) (IW + padW) - b" "0 < min (min (b + kW) (IW + padW)) IW - max b 0"
    using w w0 pW padW(2) kW IW unfolding b_def by linarith+
  have "0 < (min (a + kH) (IH + padH) - a) * (min (b + kW) (IW + padW) - b)"
    using hh(1) ww(1) by (rule mult_pos_pos)
  moreover have "0 < (min (min (a + kH) (IH + padH)) IH - max a 0) *
                     (min (min (b + kW) (IW + padW)) IW - max b 0)"
    using hh(2) ww(2) by (rule mult_pos_pos)
  ultimately show ?thesis
    using dov unfolding pool_divide_factor_def pool_window_def Let_def a_def[symmetric] b_def[symmetric]
    by (auto split: option.splits)
qed


text \<open>
  Claim C4.  A valid call of the backward entry point returns, and what it
  returns is the gradient of the input.  Valid means what the entry point asks
  for and what its kernels rely on: the two tensors are well formed and of the
  same element kind, a float, Long or BFloat16; the kernel and padding lists have
  one or two values and the stride list none, one or two, all of them 32-bit;
  the divisor override is not zero; the shape check of the entry point accepts
  the input, the gradient and the output sizes \<open>OH\<close>, \<open>OW\<close> computed from the
  input; a 4-D gradient has the batch size of the input (the shape check does
  not compare it); and, for elements of kind Long, the padding is not negative.
  Then the call returns a tensor with the sizes, the layout and the element kind
  of the input, whose element at every coordinate is the value accumulated from
  zero, in the order of the output positions, of the gradient at each output
  position whose window contains the coordinate, divided by the divisor of that
  window; the divisor is \<open>pool_divide_factor\<close>, the one of the forward kernels.
  In particular the element is zero where no window contains the coordinate.
\<close>

theorem backward_sums_covering_windows:
  fixes nm :: "('a::{zero,plus}, 'f) numerics" and input gradOutput :: "'a tensor"
    and kernel_size stride padding :: "int list"
  defines "kH \<equiv> hd kernel_size" and "kW \<equiv> last kernel_size"
    and "dH \<equiv> (if stride = [] then hd kernel_size else hd stride)"
    and "dW \<equiv> (if stride = [] then last kernel_size else last stride)"
    and "padH \<equiv> hd padding" and "padW \<equiv> last padding"
    and "IH \<equiv> int (size_at input (- 2))" and "IW \<equiv> int (size_at input (- 1))"
  assumes wf: "wf_tensor input" "wf_tensor gradOutput"
    and kind: "scalar_type gradOutput = scalar_type input"
      "scalar_type input \<in> {kFloat, kDouble, kLong, kBFloat16}"
    and lists: "length kernel_size \<in> {1, 2}" "length stride \<in> {0, 1, 2}" "length padding \<in> {1, 2}"
    and int32: "\<forall>v\<in>set (kernel_size @ stride @ padding). - (2 ^ 31) \<le> v \<and> v < 2 ^ 31"
    and dov: "divisor_override \<noteq> Some 0"
    and ow: "pooling_output_shape IW kW padW dW 1 ceil_mode = Inr OW"
    and oh: "pooling_output_shape IH kH padH dH 1 ceil_mode = Inr OH"
    and chk: "avg_pool2d_backward_shape_check input gradOutput
                (int (if ndimension input = 4 then size_at input (- 4) else 1))
                kH kW dH dW padH padW (int (size_at input (- 3))) IH IW OH OW
                (suggest_memory_format input) = None"
    and batch: "ndimension input = 4 \<longrightarrow> size_at gradOutput 0 = size_at input 0"
    and long: "scalar_type input = kLong \<longrightarrow> 0 \<le> padH \<and> 0 \<le> padW"
  shows "\<exists>t. avg_pool2d_backward_out_cpu nm gradOutput input kernel_size stride padding
               ceil_mode count_include_pad divisor_override = Inr t \<and>
             sizes t = sizes input \<and> memory_format t = memory_format input \<and>
             scalar_type t = scalar_type input \<and> length (data t) = numel input \<and>
             (\<forall>idx. list_all2 (<) idx (sizes input) \<longrightarrow>
                element_at t idx =
                avg_pool_backward_value (scalar_div nm)
                  (\<lambda>oh ow. element_at gradOutput (take (length idx - 2) idx @ [nat oh, nat ow]))
                  OH OW kW kH dW dH padW padH IH IW count_include_pad divisor_override
                  (int (idx ! (length idx - 2))) (int (idx ! (length idx - 1))) \<and>
                (covering_windows OH OW kW kH dW dH padW padH IH IW
                   (int (idx ! (length idx - 2))) (int (idx ! (length idx - 1))) = [] \<longrightarrow>
                 element_at t idx = 0))"
proof -
  note c = backward_shape_check_None[OF chk]
  have r3: "3 \<le> ndimension input" using c(1) by auto
  have st: "stride = [] \<or> length stride = 1 \<or> length stride = 2" using lists(2) by auto
  have e: "avg_pool2d_backward_out_cpu nm gradOutput input kernel_size stride padding
               ceil_mode count_include_pad divisor_override =
           avg_pool2d_backward_out_cpu_sized nm gradOutput input kH kW dH dW padH padW
               ceil_mode count_include_pad divisor_override"
    unfolding kH_def kW_def dH_def dW_def padH_def padW_def
    using lists(1) st lists(3) int32 dov by (intro backward_entry_sized) simp_all
  have run: "avg_pool2d_backward_out_cpu_sized nm gradOutput input kH kW dH dW padH padW
               ceil_mode count_include_pad divisor_override =
             avg_pool2d_backward_kernel_impl nm
               (zeros (scalar_type input) (sizes input) (memory_format input)) gradOutput
               kW kH dW dH padW padH count_include_pad divisor_override"
    by (rule backward_sized_run[OF r3 ow[unfolded IW_def] oh[unfolded IH_def]
          chk[unfolded IH_def IW_def] kind(1)])
  let ?gi = "zeros (scalar_type input) (sizes input) (memory_format input) :: 'a tensor"
  have kd: "AT_DISPATCH_FLOATING_TYPES_AND2 kLong kBFloat16 (scalar_type gradOutput)"
    using kind by (auto simp add: AT_DISPATCH_FLOATING_TYPES_AND2_def)
  have lgo: "length (data gradOutput) = prod_list (sizes gradOutput)"
    by (rule wf_tensor_length[OF wf(2)])
  have lgi: "length (data ?gi) = prod_list (sizes ?gi)" by simp
  have pos: "0 < IH" "0 < IW" using c(4,5) by (simp_all add: IH_def IW_def)
  have nt: "\<not> (scalar_type gradOutput = kLong \<and>
                pool_divide_factor divisor_override count_include_pad
                  (pool_window oh ow kW kH dW dH padW padH IH IW) = 0)"
    if "0 \<le> oh" "oh < OH" "0 \<le> ow" "ow < OW" for oh ow
  proof (cases "scalar_type gradOutput = kLong")
    case True
    then have p: "0 \<le> padH" "0 \<le> padW" using long kind(1) by simp_all
    have "pool_divide_factor divisor_override count_include_pad
            (pool_window oh ow kW kH dW dH padW padH IH IW) \<noteq> 0"
      by (rule pool_divide_factor_nonzero[OF c(10) c(12) c(14) p(1) pos(1) oh that(1,2)
            c(9) c(11) c(13) p(2) pos(2) ow that(3,4) dov])
    then show ?thesis by simp
  qed simp
  define OHn where "OHn = size_at gradOutput (- 2)"
  define OWn where "OWn = size_at gradOutput (- 1)"
  have O: "OH = int OHn" "OW = int OWn" using c(7,8) by (simp_all add: OHn_def OWn_def)
  from c(1) show ?thesis
  proof
    assume n3: "ndimension input = 3"
    then obtain C IHn IWn where si: "sizes input = [C, IHn, IWn]"
      by (auto simp add: ndimension_def length_Suc_conv numeral_3_eq_3)
    from c(2) n3 obtain C' a b where so': "sizes gradOutput = [C', a, b]"
      by (auto simp add: ndimension_def length_Suc_conv numeral_3_eq_3)
    have so: "sizes gradOutput = [C, OHn, OWn]"
      using c(6) so' si by (simp add: OHn_def OWn_def size_at_def)
    have I: "IH = int IHn" "IW = int IWn" using si by (simp_all add: IH_def IW_def size_at_def)
    have f: "memory_format gradOutput = Contiguous"
      using wf(2) c(2) n3 by (intro wf_tensor_rank3_packed) simp_all
    have sgi: "sizes ?gi = [C, IHn, IWn]" using si by simp
    have pn: "0 < IHn" "0 < IWn" using pos by (simp_all add: I)
    from backward_kernel_rank3[OF sgi so lgi lgo f kd pn nt[unfolded O I], of nm]
    obtain t where t: "avg_pool2d_backward_kernel_impl nm ?gi gradOutput
               kW kH dW dH padW padH count_include_pad divisor_override = Inr t"
      "sizes t = sizes ?gi" "memory_format t = memory_format ?gi" "scalar_type t = scalar_type ?gi"
      "length (data t) = prod_list (sizes ?gi)"
      and v: "\<And>c ih iw. c < C \<Longrightarrow> ih < IHn \<Longrightarrow> iw < IWn \<Longrightarrow>
                element_at t [c, ih, iw] =
                foldl (\<lambda>acc (oh, ow).
                         acc + scalar_div nm (element_at gradOutput [c, nat oh, nat ow])
                                 (pool_divide_factor divisor_override count_include_pad
                                    (pool_window oh ow kW kH dW dH padW padH (int IHn) (int IWn))))
                  (element_at ?gi [c, ih, iw])
                  (covering_windows (int OHn) (int OWn) kW kH dW dH padW padH (int IHn) (int IWn)
                     (int ih) (int iw))"
      by blast
    have val: "element_at t idx =
                avg_pool_backward_value (scalar_div nm)
                  (\<lambda>oh ow. element_at gradOutput (take (length idx - 2) idx @ [nat oh, nat ow]))
                  OH OW kW kH dW dH padW padH IH IW count_include_pad divisor_override
                  (int (idx ! (length idx - 2))) (int (idx ! (length idx - 1)))"
      if b: "list_all2 (<) idx (sizes input)" for idx
    proof -
      from b obtain c ih iw where i: "idx = [c, ih, iw]" "c < C" "ih < IHn" "iw < IWn"
        unfolding si list_all2_less3 by auto
      have z: "element_at ?gi [c, ih, iw] = 0"
        by (rule element_at_zeros) (simp add: si i)
      show ?thesis
        unfolding i(1) v[OF i(2-4)] z avg_pool_backward_value_def O I by simp
    qed
    have zero: "element_at t idx = 0"
      if "list_all2 (<) idx (sizes input)"
        "covering_windows OH OW kW kH dW dH padW padH IH IW
           (int (idx ! (length idx - 2))) (int (idx ! (length idx - 1))) = []" for idx
      unfolding val[OF that(1)] avg_pool_backward_value_def that(2) by simp
    show ?thesis
      unfolding e run using t val zero by (simp add: numel_def)
  next
    assume n4: "ndimension input = 4"
    then obtain N C IHn IWn where si: "sizes input = [N, C, IHn, IWn]"
      by (auto simp add: ndimension_def length_Suc_conv numeral_eq_Suc)
    from c(2) n4 obtain N' C' a b where so': "sizes gradOutput = [N', C', a, b]"
      by (auto simp add: ndimension_def length_Suc_conv numeral_eq_Suc)
    have so: "sizes gradOutput = [N, C, OHn, OWn]"
      using c(6) so' si batch n4 by (simp add: OHn_def OWn_def size_at_def)
    have I: "IH = int IHn" "IW = int IWn" using si by (simp_all add: IH_def IW_def size_at_def)
    have f: "memory_format gradOutput = Contiguous \<or> memory_format gradOutput = ChannelsLast"
      using wf(2) c(2) n4 by (intro wf_tensor_rank4_layout) simp_all
    have sgi: "sizes ?gi = [N, C, IHn, IWn]" using si by simp
    have Cpos: "0 < C" using c(3) si by (simp add: size_at_def)
    have pn: "0 < IHn" "0 < IWn" using pos by (simp_all add: I)
    from backward_kernel_rank4[OF sgi so lgi lgo f kd Cpos pn nt[unfolded O I], of nm]
    obtain t where t: "avg_pool2d_backward_kernel_impl nm ?gi gradOutput
               kW kH dW dH padW padH count_include_pad divisor_override = Inr t"
      "sizes t = sizes ?gi" "memory_format t = memory_format ?gi" "scalar_type t = scalar_type ?gi"
      "length (data t) = prod_list (sizes ?gi)"
      and v: "\<And>n c ih iw. n < N \<Longrightarrow> c < C \<Longrightarrow> ih < IHn \<Longrightarrow> iw < IWn \<Longrightarrow>
                element_at t [n, c, ih, iw] =
                foldl (\<lambda>acc (oh, ow).
                         acc + scalar_div nm (element_at gradOutput [n, c, nat oh, nat ow])
                                 (pool_divide_factor divisor_override count_include_pad
                                    (pool_window oh ow kW kH dW dH padW padH (int IHn) (int IWn))))
                  (element_at ?gi [n, c, ih, iw])
                  (covering_windows (int OHn) (int OWn) kW kH dW dH padW padH (int IHn) (int IWn)
                     (int ih) (int iw))"
      by blast
    have val: "element_at t idx =
                avg_pool_backward_value (scalar_div nm)
                  (\<lambda>oh ow. element_at gradOutput (take (length idx - 2) idx @ [nat oh, nat ow]))
                  OH OW kW kH dW dH padW padH IH IW count_include_pad divisor_override
                  (int (idx ! (length idx - 2))) (int (idx ! (length idx - 1)))"
      if b: "list_all2 (<) idx (sizes input)" for idx
    proof -
      from b obtain n c ih iw where i: "idx = [n, c, ih, iw]" "n < N" "c < C" "ih < IHn" "iw < IWn"
        unfolding si list_all2_less4 by auto
      have z: "element_at ?gi [n, c, ih, iw] = 0"
        by (rule element_at_zeros) (simp add: si i)
      show ?thesis
        unfolding i(1) v[OF i(2-5)] z avg_pool_backward_value_def O I by simp
    qed
    have zero: "element_at t idx = 0"
      if "list_all2 (<) idx (sizes input)"
        "covering_windows OH OW kW kH dW dH padW padH IH IW
           (int (idx ! (length idx - 2))) (int (idx ! (length idx - 1))) = []" for idx
      unfolding val[OF that(1)] avg_pool_backward_value_def that(2) by simp
    show ?thesis
      unfolding e run using t val zero by (simp add: numel_def)
  qed
qed


lemmas shape_eval = wf_tensor_def ex_tensor_def ndimension_def size_at_def suggest_memory_format_def
  pooling_output_shape_def avg_pool2d_backward_shape_check_def pool2d_shape_check_def
  check_dim_size_def Let_def

lemmas gradient_eval = avg_pool_backward_value_def covering_windows_def window_covers_def
  pool_window_def pool_divide_factor_def sym_numerics_def zero_sym_def plus_sym_def Let_def

lemma ex_tensor_fields:
  "sizes (ex_tensor f s z d) = z" "memory_format (ex_tensor f s z d) = f"
  "scalar_type (ex_tensor f s z d) = s" "data (ex_tensor f s z d) = d"
  "size_at (ex_tensor f s z d) k = z ! nat (if k < 0 then k + int (length z) else k)"
  by (simp_all add: ex_tensor_def size_at_def)

lemma element_at_ex_tensor:
  "element_at (ex_tensor ChannelsLast s [N, C, H, W] d) [n, c, h, w] =
   d ! (((n * H + h) * W + w) * C + c)"
  "element_at (ex_tensor Contiguous s [C, H, W] d) [c, h, w] = d ! ((c * H + h) * W + w)"
  by (simp_all add: element_at_def physical_offset_def row_major_def ex_tensor_def)

theorem backward_sums_covering_windows_witness:
  "(\<exists>t. avg_pool2d_backward_out_cpu sym_numerics
          (ex_tensor ChannelsLast kFloat [1, 2, 1, 2] [One, Zero, Plus One One, Quot One 3])
          (ex_tensor Contiguous kFloat [1, 2, 1, 3] (replicate 6 One))
          [1, 2] [1] [0] False True None = Inr t \<and>
        sizes t = [1, 2, 1, 3] \<and> memory_format t = Contiguous \<and> length (data t) = 6 \<and>
        element_at t [0, 0, 0, 0] = Plus Zero (Quot One 2) \<and>
        element_at t [0, 0, 0, 1] = Plus (Plus Zero (Quot One 2)) (Quot (Plus One One) 2) \<and>
        element_at t [0, 1, 0, 1] = Plus (Plus Zero (Quot Zero 2)) (Quot (Quot One 3) 2)) \<and>
   (\<exists>t. avg_pool2d_backward_out_cpu sym_numerics
          (ex_tensor Contiguous kLong [1, 1, 2] [One, Plus One One])
          (ex_tensor Contiguous kLong [1, 1, 3] (replicate 3 One))
          [1] [2] [0] False False None = Inr t \<and>
        sizes t = [1, 1, 3] \<and>
        element_at t [0, 0, 0] = Plus Zero (Quot One 1) \<and>
        element_at t [0, 0, 1] = Zero \<and>
        element_at t [0, 0, 2] = Plus Zero (Quot (Plus One One) 1))"
proof (intro conjI)
  let ?g = "ex_tensor ChannelsLast kFloat [1, 2, 1, 2] [One, Zero, Plus One One, Quot One 3]"
  let ?x = "ex_tensor Contiguous kFloat [1, 2, 1, 3] (replicate 6 One)"
  show "\<exists>t. avg_pool2d_backward_out_cpu sym_numerics ?g ?x [1, 2] [1] [0] False True None = Inr t \<and>
        sizes t = [1, 2, 1, 3] \<and> memory_format t = Contiguous \<and> length (data t) = 6 \<and>
        element_at t [0, 0, 0, 0] = Plus Zero (Quot One 2) \<and>
        element_at t [0, 0, 0, 1] = Plus (Plus Zero (Quot One 2)) (Quot (Plus One One) 2) \<and>
        element_at t [0, 1, 0, 1] = Plus (Plus Zero (Quot Zero 2)) (Quot (Quot One 3) 2)"
  proof (rule exE[OF backward_sums_covering_windows[where nm = sym_numerics and gradOutput = ?g
          and input = ?x and kernel_size = "[1, 2]" and stride = "[1]" and padding = "[0]"
          and ceil_mode = False and count_include_pad = True and divisor_override = None
          and OH = 1 and OW = 2]], goal_cases)
    case (15 t)
    note v = 15[THEN conjunct2, THEN conjunct2, THEN conjunct2, THEN conjunct2, THEN conjunct2]
    have a: "element_at t [0, 0, 0, 0] = Plus Zero (Quot One 2)"
      using v[THEN spec, of "[0, 0, 0, 0]"]
      by (simp add: ex_tensor_fields element_at_ex_tensor gradient_eval upto_unfold)
    have b: "element_at t [0, 0, 0, 1] = Plus (Plus Zero (Quot One 2)) (Quot (Plus One One) 2)"
      using v[THEN spec, of "[0, 0, 0, 1]"]
      by (simp add: ex_tensor_fields element_at_ex_tensor gradient_eval upto_unfold)
    have c: "element_at t [0, 1, 0, 1] = Plus (Plus Zero (Quot Zero 2)) (Quot (Quot One 3) 2)"
      using v[THEN spec, of "[0, 1, 0, 1]"]
      by (simp add: ex_tensor_fields element_at_ex_tensor gradient_eval upto_unfold)
    show ?case
      using 15 a b c by (simp add: ex_tensor_def numel_def)
  qed (simp_all add: shape_eval)
next
  let ?g = "ex_tensor Contiguous kLong [1, 1, 2] [One, Plus One One]"
  let ?x = "ex_tensor Contiguous kLong [1, 1, 3] (replicate 3 One)"
  show "\<exists>t. avg_pool2d_backward_out_cpu sym_numerics ?g ?x [1] [2] [0] False False None = Inr t \<and>
        sizes t = [1, 1, 3] \<and>
        element_at t [0, 0, 0] = Plus Zero (Quot One 1) \<and>
        element_at t [0, 0, 1] = Zero \<and>
        element_at t [0, 0, 2] = Plus Zero (Quot (Plus One One) 1)"
  proof (rule exE[OF backward_sums_covering_windows[where nm = sym_numerics and gradOutput = ?g
          and input = ?x and kernel_size = "[1]" and stride = "[2]" and padding = "[0]"
          and ceil_mode = False and count_include_pad = False and divisor_override = None
          and OH = 1 and OW = 2]], goal_cases)
    case (15 t)
    note v = 15[THEN conjunct2, THEN conjunct2, THEN conjunct2, THEN conjunct2, THEN conjunct2]
    have a: "element_at t [0, 0, 0] = Plus Zero (Quot One 1)"
      using v[THEN spec, of "[0, 0, 0]"]
      by (simp add: ex_tensor_fields element_at_ex_tensor gradient_eval upto_unfold)
    have b: "element_at t [0, 0, 1] = Zero"
      using v[THEN spec, of "[0, 0, 1]"]
      by (simp add: ex_tensor_fields element_at_ex_tensor gradient_eval upto_unfold)
    have c: "element_at t [0, 0, 2] = Plus Zero (Quot (Plus One One) 1)"
      using v[THEN spec, of "[0, 0, 2]"]
      by (simp add: ex_tensor_fields element_at_ex_tensor gradient_eval upto_unfold)
    show ?case
      using 15 a b c by (simp add: ex_tensor_def)
  qed (simp_all add: shape_eval)
qed


section \<open>Properties of the fusion guard\<close>

lemma filter_conv2d_elu_constant:
  assumes "getIValue ''input_scale'' m vmap = Some v"
  shows "filter_conv2d_elu m vmap =
         (case v of DoubleValue d \<Rightarrow> Inr (d = Finite 1) | IntValue i \<Rightarrow> Inr (i = 1)
          | _ \<Rightarrow> Inl UnexpectedState)"
proof (cases v)
  case (DoubleValue d)
  then show ?thesis
    using assms by (cases d) (simp_all add: filter_conv2d_elu_def isDouble_def toDouble_def)
qed (use assms in \<open>simp_all add: filter_conv2d_elu_def isDouble_def toDouble_def toInt_def\<close>)

text \<open>
  Claim C8.  When the input scale bound by the match is a constant of kind double
  or int, the guard answers whether it is the identity (the double 1.0, the int
  1), and the rewriter replaces the matched subgraph exactly when it is; for
  any other double or int the graph is returned as it was.
\<close>

theorem elu_fusion_iff_identity_scale:
  "getIValue ''input_scale'' m vmap = Some v \<and> (isDouble v \<or> (\<exists>i. v = IntValue i)) \<longrightarrow>
     filter_conv2d_elu m vmap = Inr (identity_scale v) \<and>
     rewrite_match filter_conv2d_elu replace m vmap graph =
       Inr (if identity_scale v then replace m graph else graph)"
proof
  assume a: "getIValue ''input_scale'' m vmap = Some v \<and> (isDouble v \<or> (\<exists>i. v = IntValue i))"
  then have g: "getIValue ''input_scale'' m vmap = Some v" by simp
  have "filter_conv2d_elu m vmap = Inr (identity_scale v)"
    using a unfolding filter_conv2d_elu_constant[OF g]
    by (cases v) (auto simp add: identity_scale_def isDouble_def)
  then show "filter_conv2d_elu m vmap = Inr (identity_scale v) \<and>
     rewrite_match filter_conv2d_elu replace m vmap graph =
       Inr (if identity_scale v then replace m graph else graph)"
    by (simp add: rewrite_match_def)
qed

theorem elu_fusion_iff_identity_scale_witness:
  "rewrite_match filter_conv2d_elu (\<lambda>m g. ''fused'' # g)
     \<lparr>values_map = [0 :: nat \<mapsto> 7 :: nat], constant_of = [7 \<mapsto> DoubleValue (Finite 1)]\<rparr>
     [''input_scale'' \<mapsto> 0] [''conv'', ''elu''] = Inr [''fused'', ''conv'', ''elu''] \<and>
   rewrite_match filter_conv2d_elu (\<lambda>m g. ''fused'' # g)
     \<lparr>values_map = [0 :: nat \<mapsto> 7 :: nat], constant_of = [7 \<mapsto> IntValue 3]\<rparr>
     [''input_scale'' \<mapsto> 0] [''conv'', ''elu''] = Inr [''conv'', ''elu'']"
proof -
  let ?m1 = "\<lparr>values_map = [0 :: nat \<mapsto> 7 :: nat], constant_of = [7 \<mapsto> DoubleValue (Finite 1)]\<rparr>"
  let ?m2 = "\<lparr>values_map = [0 :: nat \<mapsto> 7 :: nat], constant_of = [7 \<mapsto> IntValue 3]\<rparr>"
  let ?vmap = "[''input_scale'' \<mapsto> 0 :: nat]"
  have p1: "getIValue ''input_scale'' ?m1 ?vmap = Some (DoubleValue (Finite 1)) \<and>
     (isDouble (DoubleValue (Finite 1)) \<or> (\<exists>i. DoubleValue (Finite 1) = IntValue i))"
    by (simp add: getIValue_def isDouble_def)
  have p2: "getIValue ''input_scale'' ?m2 ?vmap = Some (IntValue 3) \<and>
     (isDouble (IntValue 3) \<or> (\<exists>i. IntValue 3 = IntValue i))"
    by (simp add: getIValue_def)
  note a = elu_fusion_iff_identity_scale[where m = ?m1 and vmap = ?vmap
      and replace = "\<lambda>m g. ''fused'' # g" and graph = "[''conv'', ''elu'']",
      THEN mp, OF p1, THEN conjunct2]
  note b = elu_fusion_iff_identity_scale[where m = ?m2 and vmap = ?vmap
      and replace = "\<lambda>m g. ''fused'' # g" and graph = "[''conv'', ''elu'']",
      THEN mp, OF p2, THEN conjunct2]
  show ?thesis
    using a b by (simp add: identity_scale_def)
qed

text \<open>
  Outside the claim: an input scale that is no constant, or a constant that is
  neither a double nor an int, makes the guard fail.
\<close>

lemma filter_conv2d_elu_unexpected:
  assumes "getIValue ''input_scale'' m vmap = None \<or>
           getIValue ''input_scale'' m vmap = Some (BoolValue b) \<or>
           getIValue ''input_scale'' m vmap = Some NoneValue \<or>
           getIValue ''input_scale'' m vmap = Some OtherValue"
  shows "filter_conv2d_elu m vmap = Inl UnexpectedState"
  using assms
  by (auto simp add: filter_conv2d_elu_def isDouble_def toInt_def)

end
